theory Spec2Isabelle
  imports Main
begin

section \<open>Strings\<close>

text \<open>
  JavaScript strings are modelled as \<^typ>\<open>string\<close>: a character of the model is a UTF-16
  code unit below 256, and strings with other code units are outside the model. The
  program only compares strings for equality and prefixes, concatenates them and splits
  them at ASCII characters.
\<close>

text \<open>\<^verbatim>\<open>String.prototype.startsWith\<close>.\<close>

definition startsWith :: "string \<Rightarrow> string \<Rightarrow> bool" where
  "startsWith s p = (take (length p) s = p)"

text \<open>\<^verbatim>\<open>String.prototype.split\<close> at a single character: \<^verbatim>\<open>'a//b'.split('/')\<close> is
  \<^verbatim>\<open>['a', '', 'b']\<close> and \<^verbatim>\<open>''.split('/')\<close> is \<^verbatim>\<open>['']\<close>.\<close>

fun split_on :: "char \<Rightarrow> string \<Rightarrow> string list" where
  "split_on c [] = [[]]"
| "split_on c (x # xs) =
     (if x = c then [] # split_on c xs
      else (case split_on c xs of [] \<Rightarrow> [[x]] | s # ss \<Rightarrow> (x # s) # ss))"

text \<open>\<^verbatim>\<open>Array.prototype.join\<close>.\<close>

fun join_with :: "string \<Rightarrow> string list \<Rightarrow> string" where
  "join_with sep [] = []"
| "join_with sep [x] = x"
| "join_with sep (x # y # ys) = x @ sep @ join_with sep (y # ys)"

text \<open>\<^verbatim>\<open>String.prototype.replace\<close> with a string pattern: only the first occurrence is
  replaced. (The replacement used by the program is the empty string, so the \<^verbatim>\<open>$\<close>
  patterns of the replacement play no role.)\<close>

fun str_replace :: "string \<Rightarrow> string \<Rightarrow> string \<Rightarrow> string" where
  "str_replace pat rep [] = (if pat = [] then rep else [])"
| "str_replace pat rep (c # cs) =
     (if startsWith (c # cs) pat then rep @ drop (length pat) (c # cs)
      else c # str_replace pat rep cs)"

text \<open>\<^verbatim>\<open>String.prototype.trim\<close> removes white space and line terminators at both ends.
  Below 256 these are tab, line feed, vertical tab, form feed, carriage return, space and
  the no-break space U+00A0.\<close>

definition is_space :: "char \<Rightarrow> bool" where
  "is_space c =
     (c \<in> set [CHR 0x09, CHR 0x0A, CHR 0x0B, CHR 0x0C, CHR 0x0D, CHR 0x20, CHR 0xA0])"

definition trim :: "string \<Rightarrow> string" where
  "trim s = rev (dropWhile is_space (rev (dropWhile is_space s)))"


section \<open>The \<^verbatim>\<open>path\<close> module (POSIX flavour)\<close>

text \<open>
  \<^verbatim>\<open>util.ts\<close> calls \<^verbatim>\<open>path.normalize\<close> and \<^verbatim>\<open>path.join\<close> of Node.js. They are library
  code. This section is the POSIX implementation (the one a Linux or macOS runner
  uses), on path segments: empty segments and \<^verbatim>\<open>.\<close> are dropped, \<^verbatim>\<open>..\<close> removes the
  segment before it unless there is none or it is \<^verbatim>\<open>..\<close> itself, in which case it is kept
  for a relative path and dropped for an absolute one.

  \<^verbatim>\<open>path.join\<close> only builds the locations of the tool and of the file list; it is used in
  this flavour throughout (\<^verbatim>\<open>path.join('.', 'pmd.filelist')\<close> is \<^verbatim>\<open>pmd.filelist\<close> in the
  Windows flavour as well). \<^verbatim>\<open>path.normalize\<close> decides which filenames the change set
  holds, so there the flavour of the host is a parameter of the model: the field
  \<open>host_normalize\<close> of the environment below, of which \<open>path_normalize\<close> is the POSIX
  instance.
\<close>

fun normalizeString :: "bool \<Rightarrow> string list \<Rightarrow> string list \<Rightarrow> string list" where
  "normalizeString allowAboveRoot res [] = res"
| "normalizeString allowAboveRoot res (seg # segs) =
     (if seg = [] \<or> seg = ''.'' then normalizeString allowAboveRoot res segs
      else if seg = ''..'' then
        (if res \<noteq> [] \<and> last res \<noteq> ''..''
           then normalizeString allowAboveRoot (butlast res) segs
         else if allowAboveRoot
           then normalizeString allowAboveRoot (res @ [''..'']) segs
         else normalizeString allowAboveRoot res segs)
      else normalizeString allowAboveRoot (res @ [seg]) segs)"

definition path_normalize :: "string \<Rightarrow> string" where
  "path_normalize p =
     (if p = [] then ''.''
      else
        let isAbsolute = (hd p = CHR ''/'');
            trailingSeparator = (last p = CHR ''/'');
            q = join_with ''/'' (normalizeString (\<not> isAbsolute) [] (split_on CHR ''/'' p))
        in if q = [] then (if isAbsolute then ''/'' else if trailingSeparator then ''./'' else ''.'')
           else (if isAbsolute then ''/'' else []) @ q @ (if trailingSeparator then ''/'' else []))"

text \<open>\<^verbatim>\<open>path.join\<close>: the non-empty arguments joined by \<^verbatim>\<open>/\<close>, then normalized.\<close>

definition path_join :: "string list \<Rightarrow> string" where
  "path_join args =
     (let joined = join_with ''/'' (filter (\<lambda>a. a \<noteq> []) args)
      in if joined = [] then ''.'' else path_normalize joined)"


section \<open>The \<^verbatim>\<open>semver\<close> package\<close>

text \<open>
  \<^verbatim>\<open>semver.gte\<close> and \<^verbatim>\<open>semver.major\<close> parse their string arguments with
  \<^verbatim>\<open>new SemVer(version)\<close> in strict mode, which throws a \<^verbatim>\<open>TypeError\<close> unless the trimmed
  string has the form \<^verbatim>\<open>[v]MAJOR.MINOR.PATCH[-PRERELEASE][+BUILD]\<close>: numeric identifiers
  have no leading zero and are at most \<^verbatim>\<open>Number.MAX_SAFE_INTEGER\<close>, the other
  identifiers are non-empty words over \<^verbatim>\<open>[0-9A-Za-z-]\<close> separated by dots.
\<close>

record semver =
  major :: int
  minor :: int
  patch :: int
  prerelease :: "string list"
  build :: "string list"

definition is_digit :: "char \<Rightarrow> bool" where
  "is_digit c = (48 \<le> (of_char c :: nat) \<and> (of_char c :: nat) \<le> 57)"

definition is_letter :: "char \<Rightarrow> bool" where
  "is_letter c = ((65 \<le> (of_char c :: nat) \<and> (of_char c :: nat) \<le> 90)
                 \<or> (97 \<le> (of_char c :: nat) \<and> (of_char c :: nat) \<le> 122))"

definition is_idchar :: "char \<Rightarrow> bool" where
  "is_idchar c = (is_digit c \<or> is_letter c \<or> c = CHR ''-'')"

text \<open>The regular expression \<^verbatim>\<open>^[0-9]+$\<close>.\<close>

definition numeric :: "string \<Rightarrow> bool" where
  "numeric s = (s \<noteq> [] \<and> list_all is_digit s)"

text \<open>The regular expression \<^verbatim>\<open>0|[1-9]\d*\<close>.\<close>

definition numeric_identifier :: "string \<Rightarrow> bool" where
  "numeric_identifier s = (numeric s \<and> (s = ''0'' \<or> hd s \<noteq> CHR ''0''))"

text \<open>The regular expression \<^verbatim>\<open>0|[1-9]\d*|\d*[a-zA-Z-][a-zA-Z0-9-]*\<close>.\<close>

definition prerelease_identifier :: "string \<Rightarrow> bool" where
  "prerelease_identifier s =
     (s \<noteq> [] \<and> list_all is_idchar s \<and> (list_all is_digit s \<longrightarrow> numeric_identifier s))"

text \<open>The regular expression \<^verbatim>\<open>[0-9A-Za-z-]+\<close>.\<close>

definition build_identifier :: "string \<Rightarrow> bool" where
  "build_identifier s = (s \<noteq> [] \<and> list_all is_idchar s)"

text \<open>The number a string of decimal digits denotes (\<^verbatim>\<open>+id\<close>). Numbers are integers here;
  the program's version numbers stay far below the range where JavaScript numbers round.\<close>

definition number_of_digits :: "string \<Rightarrow> int" where
  "number_of_digits s = foldl (\<lambda>n c. 10 * n + (int (of_char c) - 48)) 0 s"

definition MAX_SAFE_INTEGER :: int where
  "MAX_SAFE_INTEGER = 9007199254740991"

definition MAX_LENGTH :: nat where
  "MAX_LENGTH = 256"

text \<open>The part of a string before the first occurrence of a character, and the part
  after it when the character occurs.\<close>

definition split_first :: "char \<Rightarrow> string \<Rightarrow> string \<times> string option" where
  "split_first c s =
     (if c \<in> set s then (takeWhile (\<lambda>x. x \<noteq> c) s, Some (tl (dropWhile (\<lambda>x. x \<noteq> c) s)))
      else (s, None))"

definition semver_parse :: "string \<Rightarrow> semver option" where
  "semver_parse ver =
     (if length ver > MAX_LENGTH then None
      else
        let s = trim ver;
            s1 = (case s of c # r \<Rightarrow> if c = CHR ''v'' then r else s | [] \<Rightarrow> s);
            (mp, b) = split_first CHR ''+'' s1;
            (m, p) = split_first CHR ''-'' mp;
            pre = (case p of None \<Rightarrow> [] | Some x \<Rightarrow> split_on CHR ''.'' x);
            bld = (case b of None \<Rightarrow> [] | Some x \<Rightarrow> split_on CHR ''.'' x)
        in (case split_on CHR ''.'' m of
              [x, y, z] \<Rightarrow>
                if numeric_identifier x \<and> numeric_identifier y \<and> numeric_identifier z
                   \<and> number_of_digits x \<le> MAX_SAFE_INTEGER
                   \<and> number_of_digits y \<le> MAX_SAFE_INTEGER
                   \<and> number_of_digits z \<le> MAX_SAFE_INTEGER
                   \<and> list_all prerelease_identifier pre
                   \<and> list_all build_identifier bld
                then Some \<lparr>major = number_of_digits x, minor = number_of_digits y,
                           patch = number_of_digits z, prerelease = pre, build = bld\<rparr>
                else None
            | _ \<Rightarrow> None))"

text \<open>
  Errors of the program: \<^verbatim>\<open>new Error(message)\<close> thrown by \<^verbatim>\<open>util.ts\<close> itself, a
  \<^verbatim>\<open>TypeError\<close> thrown by the JavaScript engine or by a library on a bad argument (its
  message is not modelled), and the rejection of a promise by one of the external services
  (registry, diff API, tool cache, file system, process launcher) with an opaque reason.
\<close>

datatype js_error = Error string | TypeError | Rejected string

definition SemVer :: "string \<Rightarrow> js_error + semver" where
  "SemVer ver = (case semver_parse ver of None \<Rightarrow> Inl TypeError | Some v \<Rightarrow> Inr v)"

text \<open>\<^verbatim>\<open>compareIdentifiers\<close>: numeric identifiers are compared as numbers and are lower than
  alphanumeric ones, which are compared as strings (by character code).\<close>

fun str_less :: "string \<Rightarrow> string \<Rightarrow> bool" where
  "str_less [] [] = False"
| "str_less [] (y # ys) = True"
| "str_less (x # xs) [] = False"
| "str_less (x # xs) (y # ys) =
     ((of_char x :: nat) < of_char y \<or> (x = y \<and> str_less xs ys))"

definition compareIdentifiers :: "string \<Rightarrow> string \<Rightarrow> int" where
  "compareIdentifiers a b =
     (let anum = numeric a; bnum = numeric b
      in if anum \<and> bnum then
           (if number_of_digits a = number_of_digits b then 0
            else if number_of_digits a < number_of_digits b then -1 else 1)
         else if a = b then 0
         else if anum \<and> \<not> bnum then -1
         else if bnum \<and> \<not> anum then 1
         else if str_less a b then -1 else 1)"

definition compareMain :: "semver \<Rightarrow> semver \<Rightarrow> int" where
  "compareMain a b =
     (if major a < major b then -1 else if major a > major b then 1
      else if minor a < minor b then -1 else if minor a > minor b then 1
      else if patch a < patch b then -1 else if patch a > patch b then 1
      else 0)"

fun comparePreIds :: "string list \<Rightarrow> string list \<Rightarrow> int" where
  "comparePreIds [] [] = 0"
| "comparePreIds (a # as) [] = 1"
| "comparePreIds [] (b # bs) = -1"
| "comparePreIds (a # as) (b # bs) =
     (if a = b then comparePreIds as bs else compareIdentifiers a b)"

definition comparePre :: "semver \<Rightarrow> semver \<Rightarrow> int" where
  "comparePre a b =
     (if prerelease a \<noteq> [] \<and> prerelease b = [] then -1
      else if prerelease a = [] \<and> prerelease b \<noteq> [] then 1
      else if prerelease a = [] \<and> prerelease b = [] then 0
      else comparePreIds (prerelease a) (prerelease b))"

definition semver_compare :: "semver \<Rightarrow> semver \<Rightarrow> int" where
  "semver_compare a b = (if compareMain a b \<noteq> 0 then compareMain a b else comparePre a b)"

text \<open>\<^verbatim>\<open>semver.gte(a, b)\<close>, \<^verbatim>\<open>semver.lt(a, b)\<close> and \<^verbatim>\<open>semver.major(a)\<close> on strings.\<close>

definition semver_gte :: "string \<Rightarrow> string \<Rightarrow> js_error + bool" where
  "semver_gte a b =
     (case SemVer a of Inl e \<Rightarrow> Inl e
      | Inr x \<Rightarrow> (case SemVer b of Inl e \<Rightarrow> Inl e | Inr y \<Rightarrow> Inr (semver_compare x y \<ge> 0)))"

definition semver_lt :: "string \<Rightarrow> string \<Rightarrow> js_error + bool" where
  "semver_lt a b =
     (case SemVer a of Inl e \<Rightarrow> Inl e
      | Inr x \<Rightarrow> (case SemVer b of Inl e \<Rightarrow> Inl e | Inr y \<Rightarrow> Inr (semver_compare x y < 0)))"

definition semver_major :: "string \<Rightarrow> js_error + int" where
  "semver_major a = (case SemVer a of Inl e \<Rightarrow> Inl e | Inr x \<Rightarrow> Inr (major x))"


section \<open>Version policy\<close>

definition useNewArgsFormat :: "string \<Rightarrow> js_error + bool" where
  "useNewArgsFormat pmdVersion = semver_gte pmdVersion ''6.41.0''"

definition isPmd7Cli :: "string \<Rightarrow> js_error + bool" where
  "isPmd7Cli pmdVersion =
     (case semver_major pmdVersion of Inl e \<Rightarrow> Inl e | Inr m \<Rightarrow> Inr (m \<ge> 7))"


section \<open>Effects and external services\<close>

text \<open>
  The program talks to the tool cache, the release registry, the diff API, the file system
  and the process launcher. Each call is recorded as an effect, in the order the calls
  are made; the answers come from an environment, which also holds the host platform
  (\<^verbatim>\<open>helper.getPlatform()\<close>), the API endpoint of the workflow
  (\<^verbatim>\<open>github_utils.defaults.baseUrl\<close>) and \<^verbatim>\<open>path.normalize\<close> of the host
  (\<open>host_normalize\<close>: \<open>path_normalize\<close> on Linux and macOS, the Windows flavour, which is
  not spelled out here, on Windows). Logging through \<^verbatim>\<open>core.debug\<close> and
  \<^verbatim>\<open>core.info\<close> is left out; \<^verbatim>\<open>core.warning\<close> is an effect.
\<close>

record PmdInfo =
  version :: string
  path :: string

record asset =
  name :: string
  browser_download_url :: string

record GitHubRestRelease =
  tag_name :: string
  assets :: "asset list"

record GitHubRestDiffEntry =
  filename :: string
  status :: string

record ExecOutput =
  exitCode :: int
  stdout :: string
  stderr :: string

datatype effect =
    CacheFind string string
  | GetLatestRelease "string option" string string
  | GetReleaseByTag "string option" string string string
  | DownloadTool string
  | ExtractZip string
  | CacheDir string string string
  | ReadDir string
  | WriteFile string string
  | GetExecOutput string "string list" bool
  | ListFiles string string nat nat nat
  | CompareCommitsWithBasehead string string string nat nat
  | Warning string

text \<open>
  The arguments of the effects: \<open>CacheFind tool version\<close>; \<open>GetLatestRelease auth owner repo\<close>
  and \<open>GetReleaseByTag auth owner repo tag\<close>, always sent to the public API, with the
  token or without; \<open>CacheDir dir tool version\<close>; \<open>WriteFile file content\<close>;
  \<open>GetExecOutput commandLine args ignoreReturnCode\<close>;
  \<open>ListFiles owner repo pull_number per_page page\<close>;
  \<open>CompareCommitsWithBasehead owner repo basehead per_page page\<close>.
\<close>

record env =
  platform :: string
  baseUrl :: string
  tc_find :: "string \<Rightarrow> string \<Rightarrow> string"
  getLatestRelease :: "js_error + GitHubRestRelease"
  getReleaseByTag :: "string \<Rightarrow> js_error + GitHubRestRelease"
  tc_downloadTool :: "string \<Rightarrow> js_error + string"
  tc_extractZip :: "string \<Rightarrow> js_error + string"
  tc_cacheDir :: "string \<Rightarrow> string \<Rightarrow> string \<Rightarrow> js_error + string"
  fs_readdir :: "string \<Rightarrow> js_error + string list"
  fs_writeFile :: "string \<Rightarrow> string \<Rightarrow> js_error + unit"
  getExecOutput :: "string \<Rightarrow> string list \<Rightarrow> js_error + ExecOutput"
  listFiles :: "nat \<Rightarrow> nat \<Rightarrow> nat \<Rightarrow> js_error + GitHubRestDiffEntry list"
  compareCommitsWithBasehead ::
    "string \<Rightarrow> nat \<Rightarrow> nat \<Rightarrow> js_error + GitHubRestDiffEntry list option"
  host_normalize :: "string \<Rightarrow> string"

text \<open>
  A computation yields the effects it has performed and either the error that ended it
  or its value. \<open>io_bind\<close> is sequencing (\<^verbatim>\<open>await\<close>, or one statement after another):
  an error ends the computation with the effects performed so far.
\<close>

type_synonym 'a io = "effect list \<times> (js_error + 'a)"

definition io_return :: "'a \<Rightarrow> 'a io" where
  "io_return x = ([], Inr x)"

definition io_throw :: "js_error \<Rightarrow> 'a io" where
  "io_throw e = ([], Inl e)"

definition io_lift :: "js_error + 'a \<Rightarrow> 'a io" where
  "io_lift r = ([], r)"

definition io_call :: "effect \<Rightarrow> js_error + 'a \<Rightarrow> 'a io" where
  "io_call eff answer = ([eff], answer)"

definition io_bind :: "'a io \<Rightarrow> ('a \<Rightarrow> 'b io) \<Rightarrow> 'b io" where
  "io_bind m f =
     (case m of
        (t, Inl e) \<Rightarrow> (t, Inl e)
      | (t, Inr x) \<Rightarrow> (case f x of (t', r) \<Rightarrow> (t @ t', r)))"


section \<open>Resolving the tool\<close>

definition PUBLIC_GITHUB_API_URL :: string where
  "PUBLIC_GITHUB_API_URL = ''https://api.github.com''"

definition determinePmdRelease :: "env \<Rightarrow> string \<Rightarrow> string \<Rightarrow> GitHubRestRelease io" where
  "determinePmdRelease E pmdVersion token =
     (let canUseToken = (baseUrl E = PUBLIC_GITHUB_API_URL);
          auth = (if canUseToken then Some token else None)
      in if pmdVersion = ''latest''
         then io_call (GetLatestRelease auth ''pmd'' ''pmd'') (getLatestRelease E)
         else io_call (GetReleaseByTag auth ''pmd'' ''pmd'' (''pmd_releases/'' @ pmdVersion))
                (getReleaseByTag E (''pmd_releases/'' @ pmdVersion)))"

definition getPmdVersionFromRelease :: "GitHubRestRelease \<Rightarrow> string" where
  "getPmdVersionFromRelease release = str_replace ''pmd_releases/'' [] (tag_name release)"

text \<open>\<^verbatim>\<open>filter(...)[0]\<close> is \<^verbatim>\<open>undefined\<close> when no asset matches; reading
  \<^verbatim>\<open>browser_download_url\<close> of it throws a \<^verbatim>\<open>TypeError\<close>.\<close>

definition getDownloadURL :: "GitHubRestRelease \<Rightarrow> js_error + string" where
  "getDownloadURL release =
     (case filter (\<lambda>a.
              let ver = getPmdVersionFromRelease release
              in name a = ''pmd-bin-'' @ ver @ ''.zip''
                 \<or> name a = ''pmd-dist-'' @ ver @ ''-bin.zip'') (assets release) of
        [] \<Rightarrow> Inl TypeError
      | a # _ \<Rightarrow> Inr (browser_download_url a))"

definition downloadPmdRelease :: "env \<Rightarrow> string \<Rightarrow> string \<Rightarrow> PmdInfo io" where
  "downloadPmdRelease E ver token =
     io_bind (io_call (CacheFind ''pmd'' ver) (Inr (tc_find E ''pmd'' ver))) (\<lambda>cachedPmdPath.
       if cachedPmdPath = [] then
         io_bind (determinePmdRelease E ver token) (\<lambda>pmdRelease.
           let pmdVersion = getPmdVersionFromRelease pmdRelease in
           io_bind (io_lift (getDownloadURL pmdRelease)) (\<lambda>url.
           io_bind (io_call (DownloadTool url) (tc_downloadTool E url)) (\<lambda>pathToZipDistribution.
           io_bind (io_call (ExtractZip pathToZipDistribution)
                      (tc_extractZip E pathToZipDistribution)) (\<lambda>pmdExtractedFolder.
           io_bind (io_call (CacheDir pmdExtractedFolder ''pmd'' pmdVersion)
                      (tc_cacheDir E pmdExtractedFolder ''pmd'' pmdVersion)) (\<lambda>cachedPath.
             io_return \<lparr>version = pmdVersion,
                        path = path_join [cachedPath, ''pmd-bin-'' @ pmdVersion]\<rparr>)))))
       else
         io_return \<lparr>version = ver, path = path_join [cachedPmdPath, ''pmd-bin-'' @ ver]\<rparr>)"

text \<open>\<^verbatim>\<open>files[0]\<close> of an empty directory is \<^verbatim>\<open>undefined\<close>, which \<^verbatim>\<open>path.join\<close> rejects
  with a \<^verbatim>\<open>TypeError\<close>.\<close>

definition downloadPmdUrl :: "env \<Rightarrow> string \<Rightarrow> string \<Rightarrow> PmdInfo io" where
  "downloadPmdUrl E ver downloadUrl =
     io_bind (io_call (DownloadTool downloadUrl) (tc_downloadTool E downloadUrl))
       (\<lambda>pathToZipDistribution.
     io_bind (io_call (ExtractZip pathToZipDistribution)
                (tc_extractZip E pathToZipDistribution)) (\<lambda>pmdExtractedFolder.
     io_bind (io_call (ReadDir pmdExtractedFolder) (fs_readdir E pmdExtractedFolder)) (\<lambda>files.
       case files of
         [] \<Rightarrow> io_throw TypeError
       | subpath # _ \<Rightarrow>
           io_return \<lparr>version = ver, path = path_join [pmdExtractedFolder, subpath]\<rparr>)))"

text \<open>The optional \<^verbatim>\<open>downloadUrl\<close> is \<open>None\<close> when it is \<^verbatim>\<open>undefined\<close>.\<close>

definition downloadPmd :: "env \<Rightarrow> string \<Rightarrow> string \<Rightarrow> string option \<Rightarrow> PmdInfo io" where
  "downloadPmd E ver token downloadUrl =
     (if ver = ''latest'' \<and> downloadUrl \<noteq> None \<and> downloadUrl \<noteq> Some []
      then io_throw (Error (''Can't combine version='' @ ver @ '' with custom downloadUrl=''
                            @ the downloadUrl))
      else if downloadUrl = None \<or> downloadUrl = Some []
      then downloadPmdRelease E ver token
      else downloadPmdUrl E ver (the downloadUrl))"


section \<open>Running the tool\<close>

datatype fileListOrSourcePath = FileList "string list" | SourcePath string

definition writeFileList :: "env \<Rightarrow> string list \<Rightarrow> unit io" where
  "writeFileList E fileList =
     io_call (WriteFile (path_join [''.'', ''pmd.filelist'']) (join_with '','' fileList))
       (fs_writeFile E (path_join [''.'', ''pmd.filelist'']) (join_with '','' fileList))"

definition executePmd ::
  "env \<Rightarrow> PmdInfo \<Rightarrow> fileListOrSourcePath \<Rightarrow> string \<Rightarrow> string \<Rightarrow> string \<Rightarrow> string
     \<Rightarrow> ExecOutput io" where
  "executePmd E pmdInfo selector ruleset reportFormat reportFile minimumPriority =
     io_bind (io_lift (isPmd7Cli (version pmdInfo))) (\<lambda>pmd7.
       let pmdExecutable1 = (if pmd7 then ''/bin/pmd'' else ''/bin/run.sh pmd'');
           pmdExecutable2 = (if platform E = ''win32''
                             then [CHR 0x5C] @ ''bin'' @ [CHR 0x5C] @ ''pmd.bat''
                             else pmdExecutable1)
       in
       io_bind (io_lift (isPmd7Cli (version pmdInfo))) (\<lambda>pmd7'.
       let pmdExecutable = (if pmd7' then pmdExecutable2 @ '' check --no-progress''
                            else pmdExecutable2)
       in
       io_bind
         (case selector of
            FileList fileList \<Rightarrow>
              io_bind (writeFileList E fileList) (\<lambda>_.
              io_bind (io_lift (useNewArgsFormat (version pmdInfo))) (\<lambda>newArgs.
                io_return [if newArgs then ''--file-list'' else ''-filelist'', ''pmd.filelist'']))
          | SourcePath sourcePath \<Rightarrow> io_return [''-d'', sourcePath]) (\<lambda>sourceParameter.
       io_bind (io_lift (useNewArgsFormat (version pmdInfo))) (\<lambda>newArgs.
         let args = [if newArgs then ''--no-cache'' else ''-no-cache''] @ sourceParameter
                    @ [''-f'', reportFormat, ''-R'', ruleset, ''-r'', reportFile,
                       ''--minimum-priority'', minimumPriority]
         in io_call (GetExecOutput (path pmdInfo @ pmdExecutable) args True)
              (getExecOutput E (path pmdInfo @ pmdExecutable) args)))))"


section \<open>Resolving the change set\<close>

text \<open>Load at most \<open>MAX_PAGE\<close> pages when determining modified files.\<close>

definition MAX_PAGE :: nat where
  "MAX_PAGE = 10"

text \<open>
  The context of the workflow run (\<^verbatim>\<open>new github_context()\<close>): the event kind, the fields
  of the event payload that are read, and the owner and name of the repository
  (\<^verbatim>\<open>context.repo\<close>).
\<close>

record WebhookPayload =
  number :: nat
  ref :: string
  before :: string
  after :: string

record Context =
  eventName :: string
  payload :: WebhookPayload
  owner :: string
  repo :: string

text \<open>A number in a template literal: its decimal digits.\<close>

function show_nat :: "nat \<Rightarrow> string" where
  "show_nat n =
     (if n < 10 then [''0123456789'' ! n]
      else show_nat (n div 10) @ [''0123456789'' ! (n mod 10)])"
  by pat_completeness auto
termination
  by (relation "measure (\<lambda>n. n)") auto

definition extractFilenames ::
  "env \<Rightarrow> GitHubRestDiffEntry list \<Rightarrow> nat \<Rightarrow> string \<Rightarrow> string list" where
  "extractFilenames E allFiles page sourcePath =
     (let sourcePath' = (if sourcePath \<noteq> ''.'' then host_normalize E (sourcePath @ ''/'')
                         else sourcePath)
      in filter (\<lambda>f. sourcePath' = ''.'' \<or> startsWith f sourcePath')
           (map (\<lambda>f. host_normalize E (filename f))
              (filter (\<lambda>f. status f = ''added'' \<or> status f = ''changed''
                          \<or> status f = ''modified'') allFiles)))"

text \<open>
  A JavaScript \<^verbatim>\<open>Set\<close> of strings iterates in insertion order: it is the list of its
  elements in that order, and \<^verbatim>\<open>add\<close> of an element it has leaves it as it is.
\<close>

definition Set_add :: "string list \<Rightarrow> string \<Rightarrow> string list" where
  "Set_add s x = (if x \<in> set s then s else s @ [x])"

text \<open>
  Both event kinds of \<^verbatim>\<open>determineModifiedFiles\<close> paginate with the same loop, around two
  different requests: \<open>fetch page\<close> is the request of the event kind with its answer, the list of
  files of the page (\<open>None\<close> when the answer has no \<^verbatim>\<open>files\<close>, which only the compare
  request allows). The loop yields the page counter it ended with and the set.
\<close>

function page_loop ::
  "env \<Rightarrow> (nat \<Rightarrow> effect \<times> (js_error + GitHubRestDiffEntry list option)) \<Rightarrow> string \<Rightarrow> nat
     \<Rightarrow> effect list \<Rightarrow> string list \<Rightarrow> (nat \<times> string list) io" where
  "page_loop E fetch sourcePath page done modifiedFilenames =
     (if page \<le> MAX_PAGE then
        (case fetch page of
           (request, Inl e) \<Rightarrow> (done @ [request], Inl e)
         | (request, Inr None) \<Rightarrow> (done @ [request], Inr (page, modifiedFilenames))
         | (request, Inr (Some allFiles)) \<Rightarrow>
             if length allFiles = 0 then (done @ [request], Inr (page, modifiedFilenames))
             else page_loop E fetch sourcePath (page + 1) (done @ [request])
                    (foldl Set_add modifiedFilenames
                       (extractFilenames E allFiles page sourcePath)))
      else (done, Inr (page, modifiedFilenames)))"
  by pat_completeness auto
termination
  by (relation "measure (\<lambda>(E, fetch, sourcePath, page, done, modifiedFilenames).
                           MAX_PAGE + 1 - page)") auto

declare page_loop.simps [simp del]

definition pull_request_fetch ::
  "env \<Rightarrow> Context \<Rightarrow> nat \<Rightarrow> effect \<times> (js_error + GitHubRestDiffEntry list option)" where
  "pull_request_fetch E context page =
     (ListFiles (owner context) (repo context) (number (payload context)) 30 page,
      map_sum id Some (listFiles E (number (payload context)) 30 page))"

definition push_fetch ::
  "env \<Rightarrow> Context \<Rightarrow> nat \<Rightarrow> effect \<times> (js_error + GitHubRestDiffEntry list option)" where
  "push_fetch E context page =
     (let basehead = before (payload context) @ ''...'' @ after (payload context)
      in (CompareCommitsWithBasehead (owner context) (repo context) basehead 30 page,
          compareCommitsWithBasehead E basehead 30 page))"

definition pull_request_warning :: "Context \<Rightarrow> string" where
  "pull_request_warning context =
     ''The pull request '' @ show_nat (number (payload context))
     @ '' is too big - not all changed files will be analyzed!''"

definition push_warning :: "Context \<Rightarrow> string" where
  "push_warning context =
     ''The push on '' @ ref (payload context)
     @ '' is too big - not all changed files will be analyzed!''"

definition unsupported_warning :: "Context \<Rightarrow> string" where
  "unsupported_warning context =
     ''Unsupported github action event '' @ [CHR 0x27] @ eventName context @ [CHR 0x27]
     @ '' - cannot determine modified files. All files will be analyzed.''"

text \<open>
  \<^verbatim>\<open>github.getOctokit(token)\<close> is the first call of \<^verbatim>\<open>determineModifiedFiles\<close>, before
  the event kind is looked at. It is library code: it makes no request, and it throws an
  \<^verbatim>\<open>Error\<close> when the token is empty. The client it returns is not modelled beyond that;
  under Jest it is replaced by a plain \<^verbatim>\<open>Octokit\<close> with the same token, which sends the
  same requests.
\<close>

definition getOctokit :: "string \<Rightarrow> js_error + unit" where
  "getOctokit token =
     (if token = [] then Inl (Error ''Parameter token or opts.auth is required'')
      else Inr ())"

text \<open>The result \<open>None\<close> is \<^verbatim>\<open>undefined\<close>: the caller analyzes the whole source path.\<close>

definition determineModifiedFiles ::
  "env \<Rightarrow> Context \<Rightarrow> string \<Rightarrow> string \<Rightarrow> string list option io" where
  "determineModifiedFiles E context token sourcePath =
     io_bind (io_lift (getOctokit token)) (\<lambda>octokit.
       if eventName context = ''pull_request'' then
         (case page_loop E (pull_request_fetch E context) sourcePath 1 [] [] of
            (done, Inl e) \<Rightarrow> (done, Inl e)
          | (done, Inr (page, modifiedFilenames)) \<Rightarrow>
              (done @ (if page \<ge> MAX_PAGE then [Warning (pull_request_warning context)] else []),
               Inr (Some modifiedFilenames)))
       else if eventName context = ''push'' then
         (case page_loop E (push_fetch E context) sourcePath 1 [] [] of
            (done, Inl e) \<Rightarrow> (done, Inl e)
          | (done, Inr (page, modifiedFilenames)) \<Rightarrow>
              (done @ (if page \<ge> MAX_PAGE then [Warning (push_warning context)] else []),
               Inr (Some modifiedFilenames)))
       else ([Warning (unsupported_warning context)], Inr None))"


section \<open>Notions used to state the properties\<close>

text \<open>The processes launched and the files written, read off the effects of a run.\<close>

fun launched :: "effect list \<Rightarrow> (string \<times> string list) list" where
  "launched [] = []"
| "launched (GetExecOutput commandLine args ignoreReturnCode # es) =
     (commandLine, args) # launched es"
| "launched (_ # es) = launched es"

fun written :: "effect list \<Rightarrow> (string \<times> string) list" where
  "written [] = []"
| "written (WriteFile file content # es) = (file, content) # written es"
| "written (_ # es) = written es"

text \<open>
  The executable suffix and the argument vector the command builder is expected to
  produce, as the specification describes them: the platform decides before the version,
  the subcommand follows the executable, and the arguments come in a fixed order.
\<close>

definition expected_executable :: "string \<Rightarrow> bool \<Rightarrow> string" where
  "expected_executable host_platform pmd7 =
     (if host_platform = ''win32'' then [CHR 0x5C] @ ''bin'' @ [CHR 0x5C] @ ''pmd.bat''
      else if pmd7 then ''/bin/pmd'' else ''/bin/run.sh pmd'')
     @ (if pmd7 then '' check --no-progress'' else [])"

definition expected_arguments ::
  "bool \<Rightarrow> fileListOrSourcePath \<Rightarrow> string \<Rightarrow> string \<Rightarrow> string \<Rightarrow> string \<Rightarrow> string list" where
  "expected_arguments newArgs selector ruleset reportFormat reportFile minimumPriority =
     [if newArgs then ''--no-cache'' else ''-no-cache'']
     @ (case selector of
          FileList fileList \<Rightarrow>
            [if newArgs then ''--file-list'' else ''-filelist'', ''pmd.filelist'']
        | SourcePath sourcePath \<Rightarrow> [''-d'', sourcePath])
     @ [''-f'', reportFormat, ''-R'', ruleset, ''-r'', reportFile,
        ''--minimum-priority'', minimumPriority]"

text \<open>A list without its repetitions: every element stays at its first position.\<close>

fun first_occurrences :: "'a list \<Rightarrow> 'a list" where
  "first_occurrences [] = []"
| "first_occurrences (x # xs) = x # first_occurrences (removeAll x xs)"

text \<open>The change entries of an answer of the diff API: none when the request failed or
  the answer has no list of files.\<close>

definition answered_files ::
  "effect \<times> (js_error + GitHubRestDiffEntry list option) \<Rightarrow> GitHubRestDiffEntry list" where
  "answered_files answer = (case snd answer of Inr (Some allFiles) \<Rightarrow> allFiles | _ \<Rightarrow> [])"

text \<open>The filtered filenames of the given pages, in page order, then in-page order.\<close>

definition gathered ::
  "env \<Rightarrow> (nat \<Rightarrow> effect \<times> (js_error + GitHubRestDiffEntry list option)) \<Rightarrow> string
     \<Rightarrow> nat list \<Rightarrow> string list" where
  "gathered E fetch sourcePath pages =
     concat (map (\<lambda>q. extractFilenames E (answered_files (fetch q)) q sourcePath) pages)"

text \<open>The request and the warning of the event kind, for the two supported kinds.\<close>

definition event_fetch ::
  "env \<Rightarrow> Context \<Rightarrow> nat \<Rightarrow> effect \<times> (js_error + GitHubRestDiffEntry list option)" where
  "event_fetch E context =
     (if eventName context = ''pull_request'' then pull_request_fetch E context
      else push_fetch E context)"

definition event_warning :: "Context \<Rightarrow> string" where
  "event_warning context =
     (if eventName context = ''pull_request'' then pull_request_warning context
      else push_warning context)"

text \<open>
  A filename is equal to or nested under the source path, as the specification computes
  it with the normalization \<open>N\<close> of the host: the current directory matches everything,
  any other source path is normalized with an appended separator and must be a prefix
  of the filename.
\<close>

definition nested_under :: "(string \<Rightarrow> string) \<Rightarrow> string \<Rightarrow> string \<Rightarrow> bool" where
  "nested_under N sourcePath f =
     (sourcePath = ''.'' \<or> startsWith f (N (sourcePath @ ''/'')))"

text \<open>
  Normalized segment lists: a segment is plain when it is a name; a normalized list is a
  run of \<^verbatim>\<open>..\<close> (for a relative path only) followed by plain segments.
\<close>

definition plain :: "string \<Rightarrow> bool" where
  "plain seg = (seg \<noteq> [] \<and> seg \<noteq> ''.'' \<and> seg \<noteq> ''..'' \<and> CHR ''/'' \<notin> set seg)"

fun normal_segments :: "bool \<Rightarrow> string list \<Rightarrow> bool" where
  "normal_segments a [] = True"
| "normal_segments a (s # ss) =
     (if s = ''..'' then a \<and> normal_segments a ss else plain s \<and> list_all plain ss)"

text \<open>
  A path in the normal form of the POSIX convention: the current directory \<^verbatim>\<open>.\<close> or
  \<^verbatim>\<open>./\<close>, the root \<^verbatim>\<open>/\<close>, or names separated by single separators, after an optional
  leading separator and before an optional trailing one, with no segment \<^verbatim>\<open>.\<close>, no empty
  segment, and \<^verbatim>\<open>..\<close> only at the start of a relative path.
\<close>

definition posix_normal_form :: "string \<Rightarrow> bool" where
  "posix_normal_form f =
     (f = ''.'' \<or> f = ''./'' \<or> f = ''/''
      \<or> (f \<noteq> []
          \<and> (let isAbsolute = (hd f = CHR ''/'');
                  trailingSeparator = (last f = CHR ''/'');
                  body = (if isAbsolute then tl f else f);
                  inner = (if trailingSeparator then butlast body else body)
              in normal_segments (\<not> isAbsolute) (split_on CHR ''/'' inner))))"


section \<open>Scenarios\<close>

text \<open>
  Concrete inputs in the style of the test suite of the repository: a release with its
  assets, a release that lacks the binary distribution, and an environment whose diff API
  answers three pull requests: number 1 has one page of entries, number 2 has the same
  page again and again, number 3 has nine pages and an empty tenth. One filename of the
  page is not in normal form. The host is a POSIX one.
\<close>

definition release_6_40_0 :: GitHubRestRelease where
  "release_6_40_0 =
     \<lparr>tag_name = ''pmd_releases/6.40.0'',
      assets = [\<lparr>name = ''pmd-src-6.40.0.zip'',
                 browser_download_url = ''https://example.org/pmd-src-6.40.0.zip''\<rparr>,
                \<lparr>name = ''pmd-bin-6.40.0.zip'',
                 browser_download_url = ''https://example.org/pmd-bin-6.40.0.zip''\<rparr>]\<rparr>"

definition release_without_binary :: GitHubRestRelease where
  "release_without_binary =
     \<lparr>tag_name = ''pmd_releases/6.40.0'',
      assets = [\<lparr>name = ''pmd-src-6.40.0.zip'',
                 browser_download_url = ''https://example.org/pmd-src-6.40.0.zip''\<rparr>]\<rparr>"

definition page_of_entries :: "GitHubRestDiffEntry list" where
  "page_of_entries =
     [\<lparr>filename = ''src/main/java/AvoidCatchingThrowableSample.java'', status = ''modified''\<rparr>,
      \<lparr>filename = ''src/main/java/DeleteFile.java'', status = ''removed''\<rparr>,
      \<lparr>filename = ''src/main//java/./NewFile.java'', status = ''added''\<rparr>,
      \<lparr>filename = ''src/main/java/ChangedFile.java'', status = ''changed''\<rparr>,
      \<lparr>filename = ''README.md'', status = ''modified''\<rparr>]"

definition example_env :: env where
  "example_env =
     \<lparr>platform = ''linux'',
      baseUrl = ''https://api.github.com'',
      tc_find = (\<lambda>tool ver. []),
      getLatestRelease = Inr release_6_40_0,
      getReleaseByTag = (\<lambda>tag. Inl (Rejected ''Not Found'')),
      tc_downloadTool = (\<lambda>url. Inr ''/tmp/download.zip''),
      tc_extractZip = (\<lambda>file. Inr ''/tmp/extracted''),
      tc_cacheDir = (\<lambda>dir tool ver. Inr ''/cache/pmd''),
      fs_readdir = (\<lambda>dir. Inr [''pmd-bin-6.40.0'']),
      fs_writeFile = (\<lambda>file content. Inr ()),
      getExecOutput = (\<lambda>commandLine args. Inr \<lparr>exitCode = 0, stdout = [], stderr = []\<rparr>),
      listFiles = (\<lambda>pull_number per_page page.
         if pull_number = 1 then (if page = 1 then Inr page_of_entries else Inr [])
         else if pull_number = 2 then Inr page_of_entries
         else (if page < 10 then Inr page_of_entries else Inr [])),
      compareCommitsWithBasehead = (\<lambda>basehead per_page page.
         if page = 1 then Inr (Some page_of_entries) else Inr None),
      host_normalize = path_normalize\<rparr>"

definition example_context :: "string \<Rightarrow> nat \<Rightarrow> Context" where
  "example_context kind pull_number =
     \<lparr>eventName = kind,
      payload = \<lparr>number = pull_number, ref = ''refs/heads/main'',
                 before = ''44c1557'', after = ''8a7a256''\<rparr>,
      owner = ''pmd'', repo = ''pmd-github-action-tests''\<rparr>"


section \<open>Facts about the version policy\<close>

lemma parse_6_41_0:
  "semver_parse ''6.41.0'' = Some \<lparr>major = 6, minor = 41, patch = 0, prerelease = [], build = []\<rparr>"
  by code_simp

lemma parse_6_40_0:
  "semver_parse ''6.40.0'' =
     Some \<lparr>major = 6, minor = 40, patch = 0, prerelease = [], build = []\<rparr>"
  by code_simp

lemma parse_7_0_0_rc1:
  "semver_parse ''7.0.0-rc1'' =
     Some \<lparr>major = 7, minor = 0, patch = 0, prerelease = [''rc1''], build = []\<rparr>"
  by code_simp

lemma useNewArgsFormat_parsed:
  assumes "semver_parse v = Some sv"
  shows "useNewArgsFormat v =
           Inr (major sv > 6 \<or> (major sv = 6 \<and> (minor sv > 41 \<or> (minor sv = 41 \<and>
                  (patch sv > 0 \<or> (patch sv = 0 \<and> prerelease sv = []))))))"
  using assms
  by (auto simp add: useNewArgsFormat_def semver_gte_def SemVer_def parse_6_41_0
        semver_compare_def compareMain_def comparePre_def)

lemma semver_lt_parsed:
  assumes "semver_parse v = Some sv"
  shows "semver_lt v ''6.41.0'' =
           Inr (\<not> (major sv > 6 \<or> (major sv = 6 \<and> (minor sv > 41 \<or> (minor sv = 41 \<and>
                  (patch sv > 0 \<or> (patch sv = 0 \<and> prerelease sv = [])))))))"
  using assms
  by (auto simp add: semver_lt_def SemVer_def parse_6_41_0
        semver_compare_def compareMain_def comparePre_def)

lemma isPmd7Cli_parsed:
  assumes "semver_parse v = Some sv"
  shows "isPmd7Cli v = Inr (7 \<le> major sv)"
  using assms by (simp add: isPmd7Cli_def semver_major_def SemVer_def)

lemma useNewArgsFormat_invalid: "semver_parse v = None \<Longrightarrow> useNewArgsFormat v = Inl TypeError"
  by (simp add: useNewArgsFormat_def semver_gte_def SemVer_def)

lemma isPmd7Cli_invalid: "semver_parse v = None \<Longrightarrow> isPmd7Cli v = Inl TypeError"
  by (simp add: isPmd7Cli_def semver_major_def SemVer_def)


section \<open>Facts about running the tool\<close>

lemma filelist_path: "path_join [''.'', ''pmd.filelist''] = ''pmd.filelist''"
  by code_simp

lemma executePmd_invalid:
  "semver_parse (version pmdInfo) = None \<Longrightarrow>
   executePmd E pmdInfo selector ruleset reportFormat reportFile minimumPriority = ([], Inl TypeError)"
  by (simp add: executePmd_def io_bind_def io_lift_def isPmd7Cli_def semver_major_def SemVer_def)

lemma executePmd_SourcePath:
  assumes "isPmd7Cli (version pmdInfo) = Inr pmd7"
      and "useNewArgsFormat (version pmdInfo) = Inr newArgs"
  shows "executePmd E pmdInfo (SourcePath p) ruleset reportFormat reportFile minimumPriority =
           ([GetExecOutput (path pmdInfo @ expected_executable (platform E) pmd7)
               (expected_arguments newArgs (SourcePath p) ruleset reportFormat reportFile minimumPriority)
               True],
            getExecOutput E (path pmdInfo @ expected_executable (platform E) pmd7)
               (expected_arguments newArgs (SourcePath p) ruleset reportFormat reportFile minimumPriority))"
  using assms
  by (simp add: executePmd_def io_bind_def io_lift_def io_return_def io_call_def Let_def
        expected_executable_def expected_arguments_def)

lemma executePmd_FileList:
  assumes "isPmd7Cli (version pmdInfo) = Inr pmd7"
      and "useNewArgsFormat (version pmdInfo) = Inr newArgs"
  shows "executePmd E pmdInfo (FileList fl) ruleset reportFormat reportFile minimumPriority =
           (case fs_writeFile E ''pmd.filelist'' (join_with '','' fl) of
              Inl e \<Rightarrow> ([WriteFile ''pmd.filelist'' (join_with '','' fl)], Inl e)
            | Inr u \<Rightarrow>
               ([WriteFile ''pmd.filelist'' (join_with '','' fl),
                 GetExecOutput (path pmdInfo @ expected_executable (platform E) pmd7)
                   (expected_arguments newArgs (FileList fl) ruleset reportFormat reportFile minimumPriority)
                   True],
                getExecOutput E (path pmdInfo @ expected_executable (platform E) pmd7)
                   (expected_arguments newArgs (FileList fl) ruleset reportFormat reportFile minimumPriority)))"
  using assms
  by (simp add: executePmd_def io_bind_def io_lift_def io_return_def io_call_def Let_def
        writeFileList_def filelist_path expected_executable_def expected_arguments_def split: sum.splits)


section \<open>Facts about path normalization\<close>

lemma split_on_nonempty [simp]: "split_on c s \<noteq> []"
  by (induction s) (auto split: list.splits)

lemma split_on_no_separator: "seg \<in> set (split_on c s) \<Longrightarrow> c \<notin> set seg"
  by (induction s arbitrary: seg) (auto split: list.splits if_splits)

lemma split_on_append_separator: "split_on c (s @ [c]) = split_on c s @ [[]]"
  by (induction s) (auto split: list.splits)

lemma split_on_no_occurrence: "c \<notin> set s \<Longrightarrow> split_on c s = [s]"
  by (induction s) auto

lemma split_on_append:
  "c \<notin> set s \<Longrightarrow> split_on c (s @ c # t) = s # split_on c t"
  by (induction s) auto

lemma split_on_join:
  assumes "segs \<noteq> []" and "\<forall>seg \<in> set segs. c \<notin> set seg"
  shows "split_on c (join_with [c] segs) = segs"
  using assms
proof (induction segs)
  case Nil
  then show ?case by simp
next
  case (Cons x xs)
  show ?case
  proof (cases xs)
    case Nil
    then show ?thesis using Cons.prems by (simp add: split_on_no_occurrence)
  next
    case (Cons y ys)
    then show ?thesis using Cons.IH Cons.prems by (simp add: split_on_append)
  qed
qed

lemma normalizeString_append_empty:
  "normalizeString a res (segs @ [[]]) = normalizeString a res segs"
  by (induction segs arbitrary: res) auto

lemma plain_all_parent: "list_all plain ss \<Longrightarrow> ''..'' \<notin> set ss"
  by (auto simp add: list_all_iff plain_def)

lemma normal_segments_plain: "list_all plain ss \<Longrightarrow> normal_segments a ss"
  by (cases ss) (auto simp add: plain_def)

lemma normal_segments_butlast:
  "normal_segments a res \<Longrightarrow> normal_segments a (butlast res)"
proof (induction res)
  case Nil
  then show ?case by simp
next
  case (Cons s ss)
  then show ?case
    by (auto simp add: list_all_iff dest: in_set_butlastD)
qed

lemma normal_segments_snoc_plain:
  "normal_segments a res \<Longrightarrow> plain s \<Longrightarrow> normal_segments a (res @ [s])"
  by (induction res) (auto simp add: plain_def)

lemma normal_segments_snoc_parent:
  "normal_segments a res \<Longrightarrow> res = [] \<or> last res = ''..'' \<Longrightarrow> a
     \<Longrightarrow> normal_segments a (res @ [''..''])"
proof (induction res)
  case Nil
  then show ?case by simp
next
  case (Cons s ss)
  show ?case
  proof (cases "s = ''..''")
    case True
    have "ss = [] \<or> last ss = ''..''" using Cons.prems(2) by (cases ss) simp_all
    moreover have "normal_segments a ss" using Cons.prems(1) True by auto
    ultimately have "normal_segments a (ss @ [''..''])" using Cons.IH Cons.prems(3) by blast
    then show ?thesis using True Cons.prems(3) by auto
  next
    case False
    then have "list_all plain (s # ss)" using Cons.prems(1) by simp
    then have "''..'' \<notin> set (s # ss)" by (rule plain_all_parent)
    moreover have "last (s # ss) \<in> set (s # ss)" by (rule last_in_set) simp
    ultimately show ?thesis using Cons.prems(2) by auto
  qed
qed

lemma normalizeString_normal:
  assumes "normal_segments a res" and "\<forall>seg \<in> set segs. CHR ''/'' \<notin> set seg"
  shows "normal_segments a (normalizeString a res segs)"
  using assms
proof (induction segs arbitrary: res)
  case Nil
  then show ?case by simp
next
  case (Cons seg segs)
  have rest: "\<forall>seg \<in> set segs. CHR ''/'' \<notin> set seg" using Cons.prems(2) by simp
  consider (skip) "seg = [] \<or> seg = ''.''"
    | (pop) "seg = ''..''" "res \<noteq> [] \<and> last res \<noteq> ''..''"
    | (up) "seg = ''..''" "\<not> (res \<noteq> [] \<and> last res \<noteq> ''..'')" "a"
    | (root) "seg = ''..''" "\<not> (res \<noteq> [] \<and> last res \<noteq> ''..'')" "\<not> a"
    | (push) "seg \<noteq> []" "seg \<noteq> ''.''" "seg \<noteq> ''..''"
    by blast
  then show ?case
  proof cases
    case skip
    then have "normalizeString a res (seg # segs) = normalizeString a res segs" by auto
    then show ?thesis using Cons.IH [OF Cons.prems(1) rest] by simp
  next
    case pop
    then have "normalizeString a res (seg # segs) = normalizeString a (butlast res) segs"
      by simp
    then show ?thesis
      using Cons.IH [OF normal_segments_butlast [OF Cons.prems(1)] rest] by simp
  next
    case up
    then have step: "normalizeString a res (seg # segs) = normalizeString a (res @ [''..'']) segs"
      by auto
    have "normal_segments a (res @ [''..''])"
      using Cons.prems(1) up by (intro normal_segments_snoc_parent) auto
    then show ?thesis using Cons.IH [OF _ rest] step by simp
  next
    case root
    then have "normalizeString a res (seg # segs) = normalizeString a res segs" by auto
    then show ?thesis using Cons.IH [OF Cons.prems(1) rest] by simp
  next
    case push
    then have step: "normalizeString a res (seg # segs) = normalizeString a (res @ [seg]) segs"
      by simp
    have "plain seg" using push Cons.prems(2) by (simp add: plain_def)
    then have "normal_segments a (res @ [seg])"
      using Cons.prems(1) by (rule normal_segments_snoc_plain [rotated])
    then show ?thesis using Cons.IH [OF _ rest] step by simp
  qed
qed

lemma normal_segments_parent_before:
  "normal_segments a (res @ ''..'' # segs) \<Longrightarrow> a \<and> (res = [] \<or> last res = ''..'')"
proof (induction res)
  case Nil
  then show ?case by simp
next
  case (Cons s ss)
  show ?case
  proof (cases "s = ''..''")
    case True
    then have "normal_segments a (ss @ ''..'' # segs)" using Cons.prems by auto
    then have "a \<and> (ss = [] \<or> last ss = ''..'')" by (rule Cons.IH)
    then show ?thesis using True by auto
  next
    case False
    then have "list_all plain (s # ss @ ''..'' # segs)" using Cons.prems by simp
    then have "''..'' \<notin> set (s # ss @ ''..'' # segs)" by (rule plain_all_parent)
    then show ?thesis by simp
  qed
qed

lemma normal_segments_member:
  "normal_segments a (res @ seg # segs) \<Longrightarrow> seg = ''..'' \<or> plain seg"
  by (induction res) (auto simp add: list_all_iff split: if_splits)

lemma normalizeString_fixpoint:
  "normal_segments a (res @ segs) \<Longrightarrow> normalizeString a res segs = res @ segs"
proof (induction segs arbitrary: res)
  case Nil
  then show ?case by simp
next
  case (Cons seg segs)
  have n: "normal_segments a ((res @ [seg]) @ segs)" using Cons.prems by simp
  from Cons.prems have "seg = ''..'' \<or> plain seg" by (rule normal_segments_member)
  then show ?case
  proof
    assume p: "seg = ''..''"
    then have "a \<and> (res = [] \<or> last res = ''..'')"
      using Cons.prems normal_segments_parent_before by blast
    then show ?thesis using Cons.IH [OF n] p by auto
  next
    assume "plain seg"
    then show ?thesis using Cons.IH [OF n] by (auto simp add: plain_def)
  qed
qed

lemma normal_segments_elements:
  "normal_segments a segs \<Longrightarrow> seg \<in> set segs \<Longrightarrow> seg \<noteq> [] \<and> CHR ''/'' \<notin> set seg"
  by (induction segs) (auto simp add: list_all_iff plain_def split: if_splits)

lemma join_with_ends:
  assumes "segs \<noteq> []" and "\<forall>seg \<in> set segs. seg \<noteq> []"
  shows "join_with sep segs \<noteq> [] \<and> hd (join_with sep segs) = hd (hd segs)
         \<and> last (join_with sep segs) = last (last segs)"
  using assms
proof (induction segs)
  case Nil
  then show ?case by simp
next
  case (Cons x xs)
  show ?case
  proof (cases xs)
    case Nil
    then show ?thesis using Cons.prems by simp
  next
    case (Cons y ys)
    then show ?thesis using Cons.IH Cons.prems by simp
  qed
qed

lemma normalize_root: "path_normalize ''/'' = ''/''"
  by code_simp

lemma normalize_dot_dir: "path_normalize ''./'' = ''./''"
  by code_simp

lemma normalize_dot: "path_normalize ''.'' = ''.''"
  by code_simp

lemma normalize_idempotent: "path_normalize (path_normalize p) = path_normalize p"
proof (cases "p = []")
  case True
  then show ?thesis by (simp add: path_normalize_def [of "[]"] normalize_dot)
next
  case False
  define isAbsolute where "isAbsolute = (hd p = CHR ''/'')"
  define trailing where "trailing = (last p = CHR ''/'')"
  define ns where "ns = normalizeString (\<not> isAbsolute) [] (split_on CHR ''/'' p)"
  define q where "q = join_with ''/'' ns"
  define pre where "pre = (if isAbsolute then ''/'' else [])"
  define post where "post = (if trailing then ''/'' else [])"
  have np: "path_normalize p =
              (if q = [] then (if isAbsolute then ''/'' else if trailing then ''./'' else ''.'')
               else pre @ q @ post)"
    using False by (simp add: path_normalize_def Let_def isAbsolute_def trailing_def ns_def q_def
        pre_def post_def)
  have normal: "normal_segments (\<not> isAbsolute) ns"
    unfolding ns_def by (rule normalizeString_normal) (auto dest: split_on_no_separator)
  show ?thesis
  proof (cases "q = []")
    case True
    then show ?thesis
      by (simp add: np normalize_root normalize_dot_dir normalize_dot)
  next
    case qne: False
    then have nsne: "ns \<noteq> []" by (auto simp add: q_def)
    have elems: "\<forall>seg \<in> set ns. seg \<noteq> [] \<and> CHR ''/'' \<notin> set seg"
      using normal normal_segments_elements by blast
    have ends: "hd q = hd (hd ns)" "last q = last (last ns)"
      using join_with_ends [OF nsne, of "''/''"] elems by (simp_all add: q_def)
    have "hd ns \<in> set ns" "last ns \<in> set ns" using nsne by simp_all
    then have hdl: "hd (hd ns) \<in> set (hd ns)" "last (last ns) \<in> set (last ns)"
      "CHR ''/'' \<notin> set (hd ns)" "CHR ''/'' \<notin> set (last ns)"
      using elems by simp_all
    have hq: "hd q \<noteq> CHR ''/''" using ends(1) hdl(1,3) by metis
    have lq: "last q \<noteq> CHR ''/''" using ends(2) hdl(2,4) by metis
    define r where "r = pre @ q @ post"
    have rne: "r \<noteq> []" using qne by (simp add: r_def)
    have hr: "(hd r = CHR ''/'') = isAbsolute"
      using qne hq by (simp add: r_def pre_def)
    have lr: "(last r = CHR ''/'') = trailing"
      using qne lq by (simp add: r_def post_def)
    have sq: "split_on CHR ''/'' q = ns"
      unfolding q_def using split_on_join [OF nsne, of "CHR ''/''"] elems by simp
    have sqp: "split_on CHR ''/'' (q @ post) = ns @ (if trailing then [[]] else [])"
      using sq split_on_append_separator [of "CHR ''/''" q] by (simp add: post_def)
    have sr: "split_on CHR ''/'' r
                = (if isAbsolute then [[]] else []) @ ns @ (if trailing then [[]] else [])"
      using sqp by (simp add: r_def pre_def)
    have fixed: "normalizeString (\<not> isAbsolute) [] ns = ns"
      using normalizeString_fixpoint [of "\<not> isAbsolute" "[]" ns] normal by simp
    have nr: "normalizeString (\<not> isAbsolute) [] (split_on CHR ''/'' r) = ns"
      using fixed normalizeString_append_empty [of "\<not> isAbsolute" "[]" ns]
      by (cases isAbsolute; cases trailing) (simp_all add: sr)
    have "path_normalize r = pre @ q @ post"
      using rne qne
      by (simp add: path_normalize_def [of r] Let_def hr lr nr q_def [symmetric] pre_def post_def)
    then show ?thesis using qne by (simp add: np r_def)
  qed
qed

lemma normalize_normal_form: "posix_normal_form (path_normalize p)"
proof (cases "p = []")
  case True
  then show ?thesis by (simp add: path_normalize_def [of "[]"] posix_normal_form_def)
next
  case False
  define isAbsolute where "isAbsolute = (hd p = CHR ''/'')"
  define trailing where "trailing = (last p = CHR ''/'')"
  define ns where "ns = normalizeString (\<not> isAbsolute) [] (split_on CHR ''/'' p)"
  define q where "q = join_with ''/'' ns"
  define pre where "pre = (if isAbsolute then ''/'' else [])"
  define post where "post = (if trailing then ''/'' else [])"
  have np: "path_normalize p =
              (if q = [] then (if isAbsolute then ''/'' else if trailing then ''./'' else ''.'')
               else pre @ q @ post)"
    using False by (simp add: path_normalize_def Let_def isAbsolute_def trailing_def ns_def q_def
        pre_def post_def)
  have normal: "normal_segments (\<not> isAbsolute) ns"
    unfolding ns_def by (rule normalizeString_normal) (auto dest: split_on_no_separator)
  show ?thesis
  proof (cases "q = []")
    case True
    then show ?thesis by (simp add: np posix_normal_form_def)
  next
    case qne: False
    then have nsne: "ns \<noteq> []" by (auto simp add: q_def)
    have elems: "\<forall>seg \<in> set ns. seg \<noteq> [] \<and> CHR ''/'' \<notin> set seg"
      using normal normal_segments_elements by blast
    have ends: "hd q = hd (hd ns)" "last q = last (last ns)"
      using join_with_ends [OF nsne, of "''/''"] elems by (simp_all add: q_def)
    have "hd ns \<in> set ns" "last ns \<in> set ns" using nsne by simp_all
    then have hdl: "hd (hd ns) \<in> set (hd ns)" "last (last ns) \<in> set (last ns)"
      "CHR ''/'' \<notin> set (hd ns)" "CHR ''/'' \<notin> set (last ns)"
      using elems by simp_all
    have hq: "hd q \<noteq> CHR ''/''" using ends(1) hdl(1,3) by metis
    have lq: "last q \<noteq> CHR ''/''" using ends(2) hdl(2,4) by metis
    define r where "r = pre @ q @ post"
    have rne: "r \<noteq> []" using qne by (simp add: r_def)
    have hr: "(hd r = CHR ''/'') = isAbsolute"
      using qne hq by (simp add: r_def pre_def)
    have lr: "(last r = CHR ''/'') = trailing"
      using qne lq by (simp add: r_def post_def)
    have sq: "split_on CHR ''/'' q = ns"
      unfolding q_def using split_on_join [OF nsne, of "CHR ''/''"] elems by simp
    have body: "(if isAbsolute then tl r else r) = q @ post"
      by (simp add: r_def pre_def)
    have inner: "(if trailing then butlast (q @ post) else q @ post) = q"
      by (simp add: post_def)
    have "posix_normal_form r"
      unfolding posix_normal_form_def Let_def hr lr body inner sq
      using rne normal by simp
    then show ?thesis using qne by (simp add: np r_def)
  qed
qed

lemma join_with_first: "join_with sep ((x # s) # ss) = x # join_with sep (s # ss)"
  by (cases ss) simp_all

lemma join_split: "join_with [c] (split_on c s) = s"
proof (induction s)
  case Nil
  then show ?case by simp
next
  case (Cons x xs)
  show ?case
  proof (cases "split_on c xs")
    case Nil
    then show ?thesis by simp
  next
    case (Cons s ss)
    then show ?thesis
      using Cons.IH by (cases ss) (auto simp add: join_with_first)
  qed
qed

lemma normalize_joined:
  assumes nsne: "ns \<noteq> []" and normal: "normal_segments (\<not> a) ns"
  shows "path_normalize ((if a then ''/'' else []) @ join_with ''/'' ns @ (if t then ''/'' else []))
         = (if a then ''/'' else []) @ join_with ''/'' ns @ (if t then ''/'' else [])"
proof -
  define q where "q = join_with ''/'' ns"
  define pre where "pre = (if a then ''/'' else [])"
  define post where "post = (if t then ''/'' else [])"
  have elems: "\<forall>seg \<in> set ns. seg \<noteq> [] \<and> CHR ''/'' \<notin> set seg"
    using normal normal_segments_elements by blast
  have ends: "q \<noteq> []" "hd q = hd (hd ns)" "last q = last (last ns)"
    using join_with_ends [OF nsne, of "''/''"] elems by (simp_all add: q_def)
  have "hd ns \<in> set ns" "last ns \<in> set ns" using nsne by simp_all
  then have hdl: "hd (hd ns) \<in> set (hd ns)" "last (last ns) \<in> set (last ns)"
    "CHR ''/'' \<notin> set (hd ns)" "CHR ''/'' \<notin> set (last ns)"
    using elems by simp_all
  have hq: "hd q \<noteq> CHR ''/''" using ends(2) hdl(1,3) by metis
  have lq: "last q \<noteq> CHR ''/''" using ends(3) hdl(2,4) by metis
  define r where "r = pre @ q @ post"
  have rne: "r \<noteq> []" using ends(1) by (simp add: r_def)
  have hr: "(hd r = CHR ''/'') = a"
    using ends(1) hq by (simp add: r_def pre_def)
  have lr: "(last r = CHR ''/'') = t"
    using ends(1) lq by (simp add: r_def post_def)
  have sq: "split_on CHR ''/'' q = ns"
    unfolding q_def using split_on_join [OF nsne, of "CHR ''/''"] elems by simp
  have sqp: "split_on CHR ''/'' (q @ post) = ns @ (if t then [[]] else [])"
    using sq split_on_append_separator [of "CHR ''/''" q] by (simp add: post_def)
  have sr: "split_on CHR ''/'' r = (if a then [[]] else []) @ ns @ (if t then [[]] else [])"
    using sqp by (simp add: r_def pre_def)
  have fixed: "normalizeString (\<not> a) [] ns = ns"
    using normalizeString_fixpoint [of "\<not> a" "[]" ns] normal by simp
  have nr: "normalizeString (\<not> a) [] (split_on CHR ''/'' r) = ns"
    using fixed normalizeString_append_empty [of "\<not> a" "[]" ns]
    by (cases a; cases t) (simp_all add: sr)
  have "path_normalize r = pre @ q @ post"
    using rne ends(1)
    by (simp add: path_normalize_def [of r] Let_def hr lr nr q_def [symmetric] pre_def post_def)
  then show ?thesis by (simp add: r_def pre_def post_def q_def)
qed

lemma normal_form_fixed_point:
  assumes "posix_normal_form f"
  shows "path_normalize f = f"
proof -
  consider "f = ''.''" | "f = ''./''" | "f = ''/''"
    | (joined) "f \<noteq> ''/''" "f \<noteq> []"
        "normal_segments (\<not> (hd f = CHR ''/''))
           (split_on CHR ''/''
              (if last f = CHR ''/'' then butlast (if hd f = CHR ''/'' then tl f else f)
               else (if hd f = CHR ''/'' then tl f else f)))"
    using assms unfolding posix_normal_form_def Let_def by blast
  then show ?thesis
  proof cases
    case 1 then show ?thesis by (simp only: normalize_dot)
  next
    case 2 then show ?thesis by (simp only: normalize_dot_dir)
  next
    case 3 then show ?thesis by (simp only: normalize_root)
  next
    case joined
    define a where "a = (hd f = CHR ''/'')"
    define t where "t = (last f = CHR ''/'')"
    define body where "body = (if a then tl f else f)"
    define inner where "inner = (if t then butlast body else body)"
    define ns where "ns = split_on CHR ''/'' inner"
    have normal: "normal_segments (\<not> a) ns"
      using joined(3) unfolding a_def t_def body_def inner_def ns_def .
    have nsne: "ns \<noteq> []" by (simp add: ns_def)
    have fb: "f = (if a then ''/'' else []) @ body"
      using joined(2) by (cases f) (auto simp add: a_def body_def)
    have bne: "body \<noteq> []"
      using joined(1,2) fb by (cases a) auto
    have lb: "last body = last f"
      using bne fb by (cases a) auto
    have bi: "body = inner @ (if t then ''/'' else [])"
    proof (cases t)
      case True
      then have "last body = CHR ''/''" using lb by (simp add: t_def)
      then have "butlast body @ ''/'' = body" using bne append_butlast_last_id by fastforce
      then show ?thesis using True by (simp add: inner_def)
    next
      case False
      then show ?thesis by (simp add: inner_def)
    qed
    have ij: "inner = join_with ''/'' ns"
      unfolding ns_def using join_split [of "CHR ''/''" inner] by simp
    have "f = (if a then ''/'' else []) @ join_with ''/'' ns @ (if t then ''/'' else [])"
      using fb bi ij by metis
    then show ?thesis
      using normalize_joined [OF nsne normal, of t] by metis
  qed
qed

lemma posix_normal_form_iff: "posix_normal_form f \<longleftrightarrow> path_normalize f = f"
  using normal_form_fixed_point normalize_normal_form by metis

lemma normalize_directory:
  assumes "path_normalize sp = sp" and "sp \<noteq> ''.''"
  shows "path_normalize (sp @ ''/'') = (if last sp = CHR ''/'' then sp else sp @ ''/'')"
proof -
  have ne: "sp \<noteq> []"
    using assms by (auto simp add: path_normalize_def)
  define isAbsolute where "isAbsolute = (hd sp = CHR ''/'')"
  define trailing where "trailing = (last sp = CHR ''/'')"
  define ns where "ns = normalizeString (\<not> isAbsolute) [] (split_on CHR ''/'' sp)"
  define q where "q = join_with ''/'' ns"
  define pre where "pre = (if isAbsolute then ''/'' else [])"
  define post where "post = (if trailing then ''/'' else [])"
  have np: "path_normalize sp =
              (if q = [] then (if isAbsolute then ''/'' else if trailing then ''./'' else ''.'')
               else pre @ q @ post)"
    using ne by (simp add: path_normalize_def Let_def isAbsolute_def trailing_def ns_def q_def
        pre_def post_def)
  have split: "split_on CHR ''/'' (sp @ ''/'') = split_on CHR ''/'' sp @ [[]]"
    using split_on_append_separator [of "CHR ''/''" sp] by simp
  have nd: "path_normalize (sp @ ''/'') =
              (if q = [] then (if isAbsolute then ''/'' else ''./'') else pre @ q @ ''/'')"
    using ne
    by (simp add: path_normalize_def [of "sp @ ''/''"] Let_def split normalizeString_append_empty
        isAbsolute_def [symmetric] ns_def [symmetric] q_def [symmetric] pre_def)
  show ?thesis
  proof (cases "q = []")
    case True
    have spv: "sp = (if isAbsolute then ''/'' else if trailing then ''./'' else ''.'')"
      using assms(1) np True by simp
    have ndv: "path_normalize (sp @ ''/'') = (if isAbsolute then ''/'' else ''./'')"
      using nd True by simp
    show ?thesis
    proof (cases isAbsolute)
      case True
      then have a: "sp = ''/''" using spv by simp
      have "path_normalize (sp @ ''/'') = ''/''" using ndv True by simp
      then have "path_normalize (sp @ ''/'') = sp" by (simp only: a)
      moreover have "last sp = CHR ''/''" by (simp add: a)
      ultimately show ?thesis by simp
    next
      case False
      then have a: "sp = ''./''" using spv assms(2) by (cases trailing) simp_all
      have "path_normalize (sp @ ''/'') = ''./''" using ndv False by simp
      then have "path_normalize (sp @ ''/'') = sp" by (simp only: a)
      moreover have "last sp = CHR ''/''" by (simp add: a)
      ultimately show ?thesis by simp
    qed
  next
    case False
    then have sp: "sp = pre @ q @ post" using assms(1) np by simp
    have nd': "path_normalize (sp @ ''/'') = pre @ q @ ''/''"
      using nd False by simp
    show ?thesis
    proof (cases trailing)
      case True
      have l: "last sp = CHR ''/''" using True unfolding trailing_def .
      have "post = ''/''" using True by (simp only: post_def if_True)
      then have "pre @ q @ ''/'' = sp" using sp by (simp only:)
      then have "path_normalize (sp @ ''/'') = sp" using nd' by (simp only:)
      then show ?thesis using l by simp
    next
      case False
      have l: "last sp \<noteq> CHR ''/''" using False unfolding trailing_def .
      have "post = []" using False by (simp only: post_def if_False)
      then have "pre @ q = sp" using sp by (simp only: append_Nil2)
      then have "pre @ q @ ''/'' = sp @ ''/''" by (metis append_assoc)
      then have "path_normalize (sp @ ''/'') = sp @ ''/''" using nd' by (simp only:)
      then show ?thesis using l by simp
    qed
  qed
qed


section \<open>Facts about the pagination\<close>

lemma set_first_occurrences [simp]: "set (first_occurrences xs) = set xs"
  by (induction xs rule: first_occurrences.induct) auto

lemma distinct_first_occurrences [simp]: "distinct (first_occurrences xs)"
  by (induction xs rule: first_occurrences.induct) auto

lemma removeAll_filter_notin:
  "removeAll x (filter (\<lambda>y. y \<notin> set acc) xs) = filter (\<lambda>y. y \<notin> set (acc @ [x])) xs"
  by (induction xs) auto

lemma foldl_Set_add:
  "foldl Set_add acc xs = acc @ first_occurrences (filter (\<lambda>y. y \<notin> set acc) xs)"
proof (induction xs arbitrary: acc)
  case Nil
  then show ?case by simp
next
  case (Cons x xs)
  show ?case
  proof (cases "x \<in> set acc")
    case True
    then show ?thesis using Cons [of acc] by (simp add: Set_add_def)
  next
    case False
    then show ?thesis
      using Cons [of "acc @ [x]"] by (simp add: Set_add_def removeAll_filter_notin)
  qed
qed

lemma foldl_Set_add_Nil: "foldl Set_add [] xs = first_occurrences xs"
  by (simp add: foldl_Set_add)

lemma page_loop_stop:
  assumes "p \<le> k" and "k \<le> MAX_PAGE"
      and "\<forall>q. p \<le> q \<and> q < k \<longrightarrow> (\<exists>allFiles. snd (fetch q) = Inr (Some allFiles) \<and> allFiles \<noteq> [])"
      and "snd (fetch k) = Inr None \<or> snd (fetch k) = Inr (Some [])"
  shows "page_loop E fetch sourcePath p done fs =
           (done @ map (\<lambda>q. fst (fetch q)) [p..<Suc k],
            Inr (k, foldl Set_add fs (gathered E fetch sourcePath [p..<k])))"
  using assms
proof (induction E fetch sourcePath p "done" fs rule: page_loop.induct)
  case (1 E fetch sourcePath page "done" modifiedFilenames)
  have le: "page \<le> MAX_PAGE" using "1.prems" by simp
  show ?case
  proof (cases "page = k")
    case True
    then show ?thesis
      using "1.prems"(4) le
      by (subst page_loop.simps) (auto simp add: gathered_def split: prod.splits)
  next
    case False
    then have lt: "page < k" using "1.prems"(1) by simp
    then obtain allFiles where af: "snd (fetch page) = Inr (Some allFiles)" "allFiles \<noteq> []"
      using "1.prems"(3) by auto
    obtain request where rq: "fetch page = (request, Inr (Some allFiles))"
      using af(1) by (cases "fetch page") simp
    have IH: "page_loop E fetch sourcePath (page + 1) (done @ [request])
                (foldl Set_add modifiedFilenames (extractFilenames E allFiles page sourcePath)) =
              ((done @ [request]) @ map (\<lambda>q. fst (fetch q)) [page + 1..<Suc k],
               Inr (k, foldl Set_add
                         (foldl Set_add modifiedFilenames (extractFilenames E allFiles page sourcePath))
                         (gathered E fetch sourcePath [page + 1..<k])))"
      using "1.IH" [OF le rq [symmetric] refl refl] af(2) lt "1.prems" by simp
    have upt1: "[page..<Suc k] = page # [page + 1..<Suc k]"
      using lt by (simp add: upt_conv_Cons)
    have upt2: "[page..<k] = page # [page + 1..<k]"
      using lt by (simp add: upt_conv_Cons)
    have g: "gathered E fetch sourcePath [page..<k] =
               extractFilenames E allFiles page sourcePath @ gathered E fetch sourcePath [page + 1..<k]"
      by (simp only: upt2) (simp add: gathered_def answered_files_def rq)
    have step: "page_loop E fetch sourcePath page done modifiedFilenames =
                page_loop E fetch sourcePath (page + 1) (done @ [request])
                  (foldl Set_add modifiedFilenames (extractFilenames E allFiles page sourcePath))"
      by (subst page_loop.simps) (simp add: le rq af(2))
    show ?thesis
      unfolding step IH g upt1 by (simp add: rq)
  qed
qed

lemma page_loop_full:
  assumes "p \<le> Suc MAX_PAGE"
      and "\<forall>q. p \<le> q \<and> q \<le> MAX_PAGE \<longrightarrow> (\<exists>allFiles. snd (fetch q) = Inr (Some allFiles) \<and> allFiles \<noteq> [])"
  shows "page_loop E fetch sourcePath p done fs =
           (done @ map (\<lambda>q. fst (fetch q)) [p..<Suc MAX_PAGE],
            Inr (Suc MAX_PAGE, foldl Set_add fs (gathered E fetch sourcePath [p..<Suc MAX_PAGE])))"
  using assms
proof (induction E fetch sourcePath p "done" fs rule: page_loop.induct)
  case (1 E fetch sourcePath page "done" modifiedFilenames)
  show ?case
  proof (cases "page \<le> MAX_PAGE")
    case False
    then have "page = Suc MAX_PAGE" using "1.prems"(1) by simp
    then show ?thesis
      by (subst page_loop.simps) (simp add: gathered_def)
  next
    case le: True
    then obtain allFiles where af: "snd (fetch page) = Inr (Some allFiles)" "allFiles \<noteq> []"
      using "1.prems"(2) by auto
    obtain request where rq: "fetch page = (request, Inr (Some allFiles))"
      using af(1) by (cases "fetch page") simp
    have IH: "page_loop E fetch sourcePath (page + 1) (done @ [request])
                (foldl Set_add modifiedFilenames (extractFilenames E allFiles page sourcePath)) =
              ((done @ [request]) @ map (\<lambda>q. fst (fetch q)) [page + 1..<Suc MAX_PAGE],
               Inr (Suc MAX_PAGE, foldl Set_add
                         (foldl Set_add modifiedFilenames (extractFilenames E allFiles page sourcePath))
                         (gathered E fetch sourcePath [page + 1..<Suc MAX_PAGE])))"
      using "1.IH" [OF le rq [symmetric] refl refl] af(2) le "1.prems" by simp
    have upt1: "[page..<Suc MAX_PAGE] = page # [page + 1..<Suc MAX_PAGE]"
      using le by (simp add: upt_conv_Cons)
    have g: "gathered E fetch sourcePath [page..<Suc MAX_PAGE] =
               extractFilenames E allFiles page sourcePath
               @ gathered E fetch sourcePath [page + 1..<Suc MAX_PAGE]"
      by (simp only: upt1) (simp add: gathered_def answered_files_def rq)
    have step: "page_loop E fetch sourcePath page done modifiedFilenames =
                page_loop E fetch sourcePath (page + 1) (done @ [request])
                  (foldl Set_add modifiedFilenames (extractFilenames E allFiles page sourcePath))"
      by (subst page_loop.simps) (simp add: le rq af(2))
    show ?thesis
      unfolding step IH g by (simp only: upt1) (simp add: rq)
  qed
qed

lemma page_loop_fail:
  assumes "p \<le> k" and "k \<le> MAX_PAGE"
      and "\<forall>q. p \<le> q \<and> q < k \<longrightarrow> (\<exists>allFiles. snd (fetch q) = Inr (Some allFiles) \<and> allFiles \<noteq> [])"
      and "snd (fetch k) = Inl e"
  shows "page_loop E fetch sourcePath p done fs =
           (done @ map (\<lambda>q. fst (fetch q)) [p..<Suc k], Inl e)"
  using assms
proof (induction E fetch sourcePath p "done" fs rule: page_loop.induct)
  case (1 E fetch sourcePath page "done" modifiedFilenames)
  have le: "page \<le> MAX_PAGE" using "1.prems" by simp
  show ?case
  proof (cases "page = k")
    case True
    then show ?thesis
      using "1.prems"(4) le
      by (subst page_loop.simps) (auto split: prod.splits)
  next
    case False
    then have lt: "page < k" using "1.prems"(1) by simp
    then obtain allFiles where af: "snd (fetch page) = Inr (Some allFiles)" "allFiles \<noteq> []"
      using "1.prems"(3) by auto
    obtain request where rq: "fetch page = (request, Inr (Some allFiles))"
      using af(1) by (cases "fetch page") simp
    have IH: "page_loop E fetch sourcePath (page + 1) (done @ [request])
                (foldl Set_add modifiedFilenames (extractFilenames E allFiles page sourcePath)) =
              ((done @ [request]) @ map (\<lambda>q. fst (fetch q)) [page + 1..<Suc k], Inl e)"
      using "1.IH" [OF le rq [symmetric] refl refl] af(2) lt "1.prems" by simp
    have upt1: "[page..<Suc k] = page # [page + 1..<Suc k]"
      using lt by (simp add: upt_conv_Cons)
    have step: "page_loop E fetch sourcePath page done modifiedFilenames =
                page_loop E fetch sourcePath (page + 1) (done @ [request])
                  (foldl Set_add modifiedFilenames (extractFilenames E allFiles page sourcePath))"
      by (subst page_loop.simps) (simp add: le rq af(2))
    show ?thesis
      unfolding step IH upt1 by (simp add: rq)
  qed
qed

lemma page_loop_gathered:
  assumes "page_loop E fetch sourcePath p done fs = (tr, Inr (k, fs'))"
  shows "fs' = foldl Set_add fs
                 (gathered E fetch sourcePath
                    (takeWhile (\<lambda>q. answered_files (fetch q) \<noteq> []) [p..<Suc MAX_PAGE]))"
  using assms
proof (induction E fetch sourcePath p "done" fs rule: page_loop.induct)
  case (1 E fetch sourcePath page "done" modifiedFilenames)
  show ?case
  proof (cases "page \<le> MAX_PAGE")
    case False
    then have "[page..<Suc MAX_PAGE] = []" by simp
    moreover have "fs' = modifiedFilenames"
      using "1.prems" False by (subst (asm) page_loop.simps) simp
    ultimately show ?thesis by (simp add: gathered_def)
  next
    case le: True
    have upt1: "[page..<Suc MAX_PAGE] = page # [page + 1..<Suc MAX_PAGE]"
      using le by (simp add: upt_conv_Cons)
    obtain request answer where rq: "fetch page = (request, answer)"
      by (cases "fetch page")
    show ?thesis
    proof (cases "\<exists>allFiles. answer = Inr (Some allFiles) \<and> allFiles \<noteq> []")
      case True
      then obtain allFiles where af: "answer = Inr (Some allFiles)" "allFiles \<noteq> []" by auto
      have rq': "fetch page = (request, Inr (Some allFiles))" using rq af by simp
      have step: "page_loop E fetch sourcePath page done modifiedFilenames =
                page_loop E fetch sourcePath (page + 1) (done @ [request])
                  (foldl Set_add modifiedFilenames (extractFilenames E allFiles page sourcePath))"
        by (subst page_loop.simps) (simp add: le rq' af(2))
      have "fs' = foldl Set_add
                    (foldl Set_add modifiedFilenames (extractFilenames E allFiles page sourcePath))
                    (gathered E fetch sourcePath
                       (takeWhile (\<lambda>q. answered_files (fetch q) \<noteq> []) [page + 1..<Suc MAX_PAGE]))"
        using "1.IH" [OF le rq' [symmetric] refl refl] af(2) "1.prems" step by simp
      then show ?thesis
        by (simp only: upt1) (simp add: gathered_def answered_files_def rq' af(2))
    next
      case False
      then have emp: "answered_files (fetch page) = []"
        by (auto simp add: answered_files_def rq split: sum.splits option.splits)
      have "fs' = modifiedFilenames"
        using "1.prems" False le rq
        by (subst (asm) page_loop.simps) (auto split: sum.splits option.splits if_splits)
      then show ?thesis
        by (simp only: upt1) (simp add: gathered_def emp)
    qed
  qed
qed

lemma determineModifiedFiles_no_token:
  "determineModifiedFiles E context [] sourcePath =
     ([], Inl (Error ''Parameter token or opts.auth is required''))"
  by (simp add: determineModifiedFiles_def getOctokit_def io_bind_def io_lift_def)

lemma determineModifiedFiles_token:
  assumes "token \<noteq> []"
  shows "determineModifiedFiles E context token sourcePath =
     (if eventName context = ''pull_request'' then
        (case page_loop E (pull_request_fetch E context) sourcePath 1 [] [] of
           (done, Inl e) \<Rightarrow> (done, Inl e)
         | (done, Inr (page, modifiedFilenames)) \<Rightarrow>
             (done @ (if page \<ge> MAX_PAGE then [Warning (pull_request_warning context)] else []),
              Inr (Some modifiedFilenames)))
      else if eventName context = ''push'' then
        (case page_loop E (push_fetch E context) sourcePath 1 [] [] of
           (done, Inl e) \<Rightarrow> (done, Inl e)
         | (done, Inr (page, modifiedFilenames)) \<Rightarrow>
             (done @ (if page \<ge> MAX_PAGE then [Warning (push_warning context)] else []),
              Inr (Some modifiedFilenames)))
      else ([Warning (unsupported_warning context)], Inr None))"
  using assms
  by (simp add: determineModifiedFiles_def getOctokit_def io_bind_def io_lift_def
      split: prod.splits sum.splits)

lemma determineModifiedFiles_supported:
  assumes "token \<noteq> []"
      and "eventName context = ''pull_request'' \<or> eventName context = ''push''"
  shows "determineModifiedFiles E context token sourcePath =
           (case page_loop E (event_fetch E context) sourcePath 1 [] [] of
              (done, Inl e) \<Rightarrow> (done, Inl e)
            | (done, Inr (page, modifiedFilenames)) \<Rightarrow>
                (done @ (if MAX_PAGE \<le> page then [Warning (event_warning context)] else []),
                 Inr (Some modifiedFilenames)))"
proof (cases "eventName context = ''pull_request''")
  case True
  then have "event_fetch E context = pull_request_fetch E context"
    and "event_warning context = pull_request_warning context"
    by (simp_all add: event_fetch_def event_warning_def)
  then show ?thesis using True
    by (simp add: determineModifiedFiles_token [OF assms(1)] split: prod.splits sum.splits)
next
  case False
  then have "event_fetch E context = push_fetch E context"
    and "event_warning context = push_warning context"
    by (simp_all add: event_fetch_def event_warning_def)
  then show ?thesis using False assms(2)
    by (simp add: determineModifiedFiles_token [OF assms(1)] split: prod.splits sum.splits)
qed

lemma determineModifiedFiles_Some_token:
  assumes "determineModifiedFiles E context token sourcePath = (tr, Inr (Some files))"
  shows "token \<noteq> []"
  using assms by (auto simp add: determineModifiedFiles_no_token)

lemma determineModifiedFiles_Some:
  assumes "determineModifiedFiles E context token sourcePath = (tr, Inr (Some files))"
  shows "eventName context = ''pull_request'' \<or> eventName context = ''push''"
proof -
  have "token \<noteq> []" using assms by (rule determineModifiedFiles_Some_token)
  then show ?thesis
    using assms by (auto simp add: determineModifiedFiles_token split: if_splits)
qed

lemma page_loop_end:
  assumes "page_loop E fetch sourcePath p done fs = (tr, Inr (k, fs'))" and "p \<le> Suc MAX_PAGE"
  shows "p \<le> k \<and> k \<le> Suc MAX_PAGE
       \<and> (\<forall>q. p \<le> q \<and> q < k \<longrightarrow> answered_files (fetch q) \<noteq> [])
       \<and> (k \<le> MAX_PAGE \<longrightarrow> answered_files (fetch k) = [])
       \<and> tr = done @ map (\<lambda>q. fst (fetch q)) [p..<min (Suc k) (Suc MAX_PAGE)]"
  using assms
proof (induction E fetch sourcePath p "done" fs rule: page_loop.induct)
  case (1 E fetch sourcePath page "done" modifiedFilenames)
  show ?case
  proof (cases "page \<le> MAX_PAGE")
    case False
    then have pg: "page = Suc MAX_PAGE" using "1.prems"(2) by simp
    have "k = page \<and> tr = done"
      using "1.prems"(1) False by (subst (asm) page_loop.simps) simp
    then show ?thesis using pg by auto
  next
    case le: True
    obtain request answer where rq: "fetch page = (request, answer)"
      by (cases "fetch page")
    show ?thesis
    proof (cases "\<exists>allFiles. answer = Inr (Some allFiles) \<and> allFiles \<noteq> []")
      case True
      then obtain allFiles where af: "answer = Inr (Some allFiles)" "allFiles \<noteq> []" by auto
      have rq': "fetch page = (request, Inr (Some allFiles))" using rq af by simp
      have step: "page_loop E fetch sourcePath page done modifiedFilenames =
                page_loop E fetch sourcePath (page + 1) (done @ [request])
                  (foldl Set_add modifiedFilenames (extractFilenames E allFiles page sourcePath))"
        by (subst page_loop.simps) (simp add: le rq' af(2))
      have IH: "page + 1 \<le> k \<and> k \<le> Suc MAX_PAGE
         \<and> (\<forall>q. page + 1 \<le> q \<and> q < k \<longrightarrow> answered_files (fetch q) \<noteq> [])
         \<and> (k \<le> MAX_PAGE \<longrightarrow> answered_files (fetch k) = [])
         \<and> tr = (done @ [request]) @ map (\<lambda>q. fst (fetch q)) [page + 1..<min (Suc k) (Suc MAX_PAGE)]"
        using "1.IH" [OF le rq' [symmetric] refl refl] af(2) "1.prems" step le by simp
      have here: "answered_files (fetch page) \<noteq> []"
        by (simp add: answered_files_def rq' af(2))
      have all: "\<forall>q. page \<le> q \<and> q < k \<longrightarrow> answered_files (fetch q) \<noteq> []"
      proof (intro allI impI)
        fix q assume "page \<le> q \<and> q < k"
        then have "q = page \<or> (page + 1 \<le> q \<and> q < k)" by auto
        then show "answered_files (fetch q) \<noteq> []" using here IH by auto
      qed
      have upt1: "[page..<min (Suc k) (Suc MAX_PAGE)]
                    = page # [page + 1..<min (Suc k) (Suc MAX_PAGE)]"
        using IH le by (simp add: upt_conv_Cons)
      have "tr = done @ map (\<lambda>q. fst (fetch q)) [page..<min (Suc k) (Suc MAX_PAGE)]"
        using IH by (simp only: upt1) (simp add: rq')
      then show ?thesis using IH all by simp
    next
      case False
      then have emp: "answered_files (fetch page) = []"
        by (auto simp add: answered_files_def rq split: sum.splits option.splits)
      have "k = page \<and> tr = done @ [request]"
        using "1.prems"(1) False le rq
        by (subst (asm) page_loop.simps) (auto split: sum.splits option.splits if_splits)
      then show ?thesis using emp le rq by (auto simp add: min_def)
    qed
  qed
qed

lemma event_fetch_not_Warning: "fst (event_fetch E context q) \<noteq> Warning w"
  by (simp add: event_fetch_def pull_request_fetch_def push_fetch_def Let_def)

lemma normalize_dir_not_dot: "path_normalize (s @ ''/'') \<noteq> ''.''"
  by (auto simp add: path_normalize_def Let_def append_eq_Cons_conv)

lemma extractFilenames_member:
  assumes "f \<in> set (extractFilenames E allFiles page sourcePath)"
  shows "\<exists>e \<in> set allFiles.
            (status e = ''added'' \<or> status e = ''changed'' \<or> status e = ''modified'')
          \<and> f = host_normalize E (filename e)
          \<and> (nested_under (host_normalize E) sourcePath f
               \<or> host_normalize E (sourcePath @ ''/'') = ''.'')"
  using assms
  by (auto simp add: extractFilenames_def nested_under_def Let_def split: if_splits)

lemma extractFilenames_ignores:
  "extractFilenames E (filter (\<lambda>e. status e \<noteq> ''removed'' \<and> status e \<noteq> ''renamed'') allFiles)
     page sourcePath = extractFilenames E allFiles page sourcePath"
proof -
  have "filter (\<lambda>f. status f = ''added'' \<or> status f = ''changed'' \<or> status f = ''modified'')
          (filter (\<lambda>e. status e \<noteq> ''removed'' \<and> status e \<noteq> ''renamed'') allFiles)
        = filter (\<lambda>f. status f = ''added'' \<or> status f = ''changed'' \<or> status f = ''modified'')
            allFiles"
    by (induction allFiles) auto
  then show ?thesis by (simp only: extractFilenames_def)
qed

lemma determineModifiedFiles_files:
  assumes "determineModifiedFiles E context token sourcePath = (tr, Inr (Some files))"
  shows "files = first_occurrences
                   (gathered E (event_fetch E context) sourcePath
                      (takeWhile (\<lambda>q. answered_files (event_fetch E context q) \<noteq> [])
                         [1..<Suc MAX_PAGE]))"
proof -
  have ev: "eventName context = ''pull_request'' \<or> eventName context = ''push''"
    using assms by (rule determineModifiedFiles_Some)
  have tok: "token \<noteq> []"
    using assms by (rule determineModifiedFiles_Some_token)
  obtain tr' r where pl: "page_loop E (event_fetch E context) sourcePath 1 [] [] = (tr', r)"
    by (cases "page_loop E (event_fetch E context) sourcePath 1 [] []")
  from assms obtain k where r: "r = Inr (k, files)"
    unfolding determineModifiedFiles_supported [OF tok ev] pl
    by (auto split: sum.splits prod.splits)
  show ?thesis
    using page_loop_gathered [OF pl [unfolded r]] by (simp add: foldl_Set_add_Nil)
qed

lemma page_loop_returns:
  assumes "\<forall>q. p \<le> q \<and> q \<le> MAX_PAGE \<longrightarrow> (\<exists>r. snd (fetch q) = Inr r)"
  shows "\<exists>tr k fs'. page_loop E fetch sourcePath p done fs = (tr, Inr (k, fs'))"
  using assms
proof (induction E fetch sourcePath p "done" fs rule: page_loop.induct)
  case (1 E fetch sourcePath page "done" modifiedFilenames)
  show ?case
  proof (cases "page \<le> MAX_PAGE")
    case False
    then show ?thesis by (subst page_loop.simps) simp
  next
    case le: True
    then obtain r where r: "snd (fetch page) = Inr r" using "1.prems" by auto
    obtain request where rq: "fetch page = (request, Inr r)"
      using r by (cases "fetch page") simp
    show ?thesis
    proof (cases "\<exists>allFiles. r = Some allFiles \<and> allFiles \<noteq> []")
      case True
      then obtain allFiles where af: "r = Some allFiles" "allFiles \<noteq> []" by auto
      have rq': "fetch page = (request, Inr (Some allFiles))" using rq af by simp
      have step: "page_loop E fetch sourcePath page done modifiedFilenames =
                page_loop E fetch sourcePath (page + 1) (done @ [request])
                  (foldl Set_add modifiedFilenames (extractFilenames E allFiles page sourcePath))"
        by (subst page_loop.simps) (simp add: le rq' af(2))
      have "\<forall>q. page + 1 \<le> q \<and> q \<le> MAX_PAGE \<longrightarrow> (\<exists>r. snd (fetch q) = Inr r)"
        using "1.prems" by auto
      then show ?thesis
        unfolding step using "1.IH" [OF le rq' [symmetric] refl refl] af(2) by simp
    next
      case False
      then show ?thesis
        using le rq
        by (subst page_loop.simps) (auto split: option.splits)
    qed
  qed
qed

lemma determineModifiedFiles_returns:
  assumes "token \<noteq> []"
      and "eventName context = ''pull_request'' \<or> eventName context = ''push''"
      and "\<forall>q. 1 \<le> q \<and> q \<le> MAX_PAGE \<longrightarrow> (\<exists>r. snd (event_fetch E context q) = Inr r)"
  shows "\<exists>tr files. determineModifiedFiles E context token sourcePath = (tr, Inr (Some files))"
proof -
  obtain tr k fs' where "page_loop E (event_fetch E context) sourcePath 1 [] [] = (tr, Inr (k, fs'))"
    using page_loop_returns [OF assms(3)] by blast
  then show ?thesis
    by (simp add: determineModifiedFiles_supported [OF assms(1,2)])
qed


section \<open>Version policy: the two thresholds\<close>

text \<open>
  Claim C3. For every version string that \<^verbatim>\<open>semver\<close> accepts: \<open>useNewArgsFormat\<close> is false
  when the version is lower than 6.41.0 and true when it is 6.41.0 or higher, in the
  precedence order of \<^verbatim>\<open>semver\<close> (spelled out on the numbers: a pre-release of 6.41.0 is
  lower than 6.41.0); \<open>isPmd7Cli\<close> is false when the major version is below 7 and true
  when it is 7 or more. One of the two comparisons always holds.
\<close>

theorem version_policy_thresholds:
  assumes "semver_parse v = Some sv"
  shows "(semver_lt v ''6.41.0'' = Inr True \<longrightarrow> useNewArgsFormat v = Inr False)
       \<and> (semver_gte v ''6.41.0'' = Inr True \<longrightarrow> useNewArgsFormat v = Inr True)
       \<and> (semver_lt v ''6.41.0'' = Inr True \<or> semver_gte v ''6.41.0'' = Inr True)
       \<and> useNewArgsFormat v =
           Inr (major sv > 6 \<or> (major sv = 6 \<and> (minor sv > 41 \<or> (minor sv = 41 \<and>
                  (patch sv > 0 \<or> (patch sv = 0 \<and> prerelease sv = []))))))
       \<and> (major sv < 7 \<longrightarrow> isPmd7Cli v = Inr False)
       \<and> (major sv \<ge> 7 \<longrightarrow> isPmd7Cli v = Inr True)"
proof -
  have lt: "semver_lt v ''6.41.0'' = Inr True \<longrightarrow> useNewArgsFormat v = Inr False"
    using assms by (simp add: semver_lt_parsed useNewArgsFormat_parsed)
  have ge: "semver_gte v ''6.41.0'' = Inr True \<longrightarrow> useNewArgsFormat v = Inr True"
    by (simp add: useNewArgsFormat_def)
  have tot: "semver_lt v ''6.41.0'' = Inr True \<or> semver_gte v ''6.41.0'' = Inr True"
    using assms by (auto simp add: semver_lt_def semver_gte_def SemVer_def parse_6_41_0)
  show ?thesis
    using lt ge tot useNewArgsFormat_parsed [OF assms] isPmd7Cli_parsed [OF assms]
    by simp
qed

theorem version_policy_thresholds_witness:
  "useNewArgsFormat ''6.40.0'' = Inr False \<and> isPmd7Cli ''6.40.0'' = Inr False
   \<and> useNewArgsFormat ''7.0.0-rc1'' = Inr True \<and> isPmd7Cli ''7.0.0-rc1'' = Inr True"
  using version_policy_thresholds [OF parse_6_40_0]
    version_policy_thresholds [OF parse_7_0_0_rc1]
  by simp


section \<open>Resolving the tool: conflicting inputs and the missing asset\<close>

text \<open>
  Claim C5. With a download URL that is present and not empty, \<open>downloadPmd\<close> for the
  version \<^verbatim>\<open>latest\<close> ends with the error \<^verbatim>\<open>Can't combine version=latest with custom
  downloadUrl=...\<close> and has performed no effect: no download, no registry request, no
  access to the cache.
\<close>

theorem downloadPmd_latest_conflict:
  assumes "url \<noteq> []"
  shows "downloadPmd E ''latest'' token (Some url)
           = ([], Inl (Error (''Can't combine version=latest with custom downloadUrl='' @ url)))"
  using assms by (simp add: downloadPmd_def io_throw_def)

theorem downloadPmd_latest_conflict_witness:
  "downloadPmd example_env ''latest'' ''my-token'' (Some ''https://example.org/download'')
     = ([], Inl (Error
          ''Can't combine version=latest with custom downloadUrl=https://example.org/download''))"
  using downloadPmd_latest_conflict
          [of "''https://example.org/download''" example_env "''my-token''"]
  by simp

text \<open>
  Claim C10. \<open>getDownloadURL\<close> yields a URL exactly when an asset of the release is named
  \<^verbatim>\<open>pmd-bin-<version>.zip\<close> or \<^verbatim>\<open>pmd-dist-<version>-bin.zip\<close>, and then the URL of such an
  asset; when no asset has one of the two names it ends with the \<^verbatim>\<open>TypeError\<close> of reading
  a property of \<^verbatim>\<open>undefined\<close>, not with an error of the program's own.
\<close>

theorem getDownloadURL_precondition:
  "((\<exists>url. getDownloadURL release = Inr url) \<longleftrightarrow>
      (\<exists>a \<in> set (assets release).
          name a = ''pmd-bin-'' @ getPmdVersionFromRelease release @ ''.zip''
        \<or> name a = ''pmd-dist-'' @ getPmdVersionFromRelease release @ ''-bin.zip''))
   \<and> ((\<forall>a \<in> set (assets release).
          name a \<noteq> ''pmd-bin-'' @ getPmdVersionFromRelease release @ ''.zip''
        \<and> name a \<noteq> ''pmd-dist-'' @ getPmdVersionFromRelease release @ ''-bin.zip'')
       \<longrightarrow> getDownloadURL release = Inl TypeError)
   \<and> (\<forall>url. getDownloadURL release = Inr url \<longrightarrow>
        (\<exists>a \<in> set (assets release). url = browser_download_url a
           \<and> (name a = ''pmd-bin-'' @ getPmdVersionFromRelease release @ ''.zip''
              \<or> name a = ''pmd-dist-'' @ getPmdVersionFromRelease release @ ''-bin.zip'')))"
proof -
  let ?P = "\<lambda>a. name a = ''pmd-bin-'' @ getPmdVersionFromRelease release @ ''.zip''
        \<or> name a = ''pmd-dist-'' @ getPmdVersionFromRelease release @ ''-bin.zip''"
  show ?thesis
  proof (cases "filter ?P (assets release)")
    case Nil
    then have none: "\<forall>a \<in> set (assets release). \<not> ?P a"
      by (simp add: filter_empty_conv)
    have "getDownloadURL release = Inl TypeError"
      using Nil by (simp add: getDownloadURL_def Let_def)
    then show ?thesis using none by auto
  next
    case (Cons a as)
    then have "a \<in> set (filter ?P (assets release))" by simp
    then have a: "a \<in> set (assets release)" "?P a" by auto
    have "getDownloadURL release = Inr (browser_download_url a)"
      using Cons by (simp add: getDownloadURL_def Let_def)
    then show ?thesis using a by auto
  qed
qed

theorem getDownloadURL_precondition_witness:
  "getDownloadURL release_without_binary = Inl TypeError
   \<and> (\<exists>url. getDownloadURL release_6_40_0 = Inr url)"
proof -
  have v1: "getPmdVersionFromRelease release_without_binary = ''6.40.0''"
    by code_simp
  have v2: "getPmdVersionFromRelease release_6_40_0 = ''6.40.0''"
    by code_simp
  have a1: "assets release_without_binary =
              [\<lparr>name = ''pmd-src-6.40.0.zip'',
                browser_download_url = ''https://example.org/pmd-src-6.40.0.zip''\<rparr>]"
    by (simp add: release_without_binary_def)
  have a2: "assets release_6_40_0 =
              [\<lparr>name = ''pmd-src-6.40.0.zip'',
                browser_download_url = ''https://example.org/pmd-src-6.40.0.zip''\<rparr>,
               \<lparr>name = ''pmd-bin-6.40.0.zip'',
                browser_download_url = ''https://example.org/pmd-bin-6.40.0.zip''\<rparr>]"
    by (simp add: release_6_40_0_def)
  show ?thesis
    using getDownloadURL_precondition [of release_without_binary]
      getDownloadURL_precondition [of release_6_40_0]
    unfolding v1 v2 a1 a2 by simp
qed


section \<open>Running the tool: executable, arguments, file list\<close>

lemma isPmd7Cli_Inr:
  assumes "isPmd7Cli v = Inr pmd7"
  shows "\<exists>newArgs. useNewArgsFormat v = Inr newArgs"
proof (cases "semver_parse v")
  case None
  then show ?thesis using assms by (simp add: isPmd7Cli_invalid)
next
  case (Some sv)
  then show ?thesis by (simp add: useNewArgsFormat_parsed)
qed

lemma useNewArgsFormat_Inr:
  assumes "useNewArgsFormat v = Inr newArgs"
  shows "\<exists>pmd7. isPmd7Cli v = Inr pmd7"
proof (cases "semver_parse v")
  case None
  then show ?thesis using assms by (simp add: useNewArgsFormat_invalid)
next
  case (Some sv)
  then show ?thesis by (simp add: isPmd7Cli_parsed)
qed

lemma executePmd_launched:
  assumes "isPmd7Cli (version pmdInfo) = Inr pmd7"
      and "useNewArgsFormat (version pmdInfo) = Inr newArgs"
      and "\<forall>fileList. selector = FileList fileList \<longrightarrow>
             fs_writeFile E ''pmd.filelist'' (join_with '','' fileList) = Inr ()"
  shows "launched (fst (executePmd E pmdInfo selector ruleset reportFormat reportFile
                         minimumPriority)) =
           [(path pmdInfo @ expected_executable (platform E) pmd7,
             expected_arguments newArgs selector ruleset reportFormat reportFile
               minimumPriority)]"
proof (cases selector)
  case (SourcePath p)
  then show ?thesis
    by (simp add: executePmd_SourcePath [OF assms(1,2)])
next
  case (FileList fileList)
  then have "fs_writeFile E ''pmd.filelist'' (join_with '','' fileList) = Inr ()"
    using assms(3) by simp
  then show ?thesis using FileList
    by (simp add: executePmd_FileList [OF assms(1,2)])
qed

text \<open>
  Claim C6. For a version that \<^verbatim>\<open>semver\<close> accepts, the process \<open>executePmd\<close> launches is
  the tool path followed by the batch script \<^verbatim>\<open>pmd.bat\<close> in \<^verbatim>\<open>bin\<close>, with backslashes as
  separators, on the platform \<^verbatim>\<open>win32\<close>, whatever the version, and otherwise by \<^verbatim>\<open>/bin/pmd\<close> for a version of major 7 or more and by
  \<^verbatim>\<open>/bin/run.sh pmd\<close> for an older one; for major 7 or more \<^verbatim>\<open> check --no-progress\<close>
  follows the executable on every platform. (A file list is written first; the process is
  launched when that succeeds.)
\<close>

theorem executePmd_executable:
  assumes "isPmd7Cli (version pmdInfo) = Inr pmd7"
      and "\<forall>fileList. selector = FileList fileList \<longrightarrow>
             fs_writeFile E ''pmd.filelist'' (join_with '','' fileList) = Inr ()"
  shows "map fst (launched (fst (executePmd E pmdInfo selector ruleset reportFormat reportFile
                                   minimumPriority))) =
           [path pmdInfo
            @ (if platform E = ''win32'' then [CHR 0x5C] @ ''bin'' @ [CHR 0x5C] @ ''pmd.bat''
               else if pmd7 then ''/bin/pmd'' else ''/bin/run.sh pmd'')
            @ (if pmd7 then '' check --no-progress'' else [])]"
proof -
  obtain newArgs where "useNewArgsFormat (version pmdInfo) = Inr newArgs"
    using isPmd7Cli_Inr [OF assms(1)] by blast
  then show ?thesis
    using executePmd_launched [OF assms(1) _ assms(2)]
    by (simp add: expected_executable_def)
qed

theorem executePmd_executable_witness:
  "map fst (launched (fst (executePmd example_env \<lparr>version = ''7.0.0-rc1'', path = ''/opt/pmd''\<rparr>
      (FileList [''a.txt'', ''b.txt'']) ''ruleset.xml'' ''sarif'' ''pmd-report.sarif'' ''5'')))
     = [''/opt/pmd/bin/pmd check --no-progress'']
   \<and> map fst (launched (fst (executePmd (example_env\<lparr>platform := ''win32''\<rparr>)
      \<lparr>version = ''6.40.0'', path = ''C:/pmd''\<rparr>
      (SourcePath ''.'') ''ruleset.xml'' ''sarif'' ''pmd-report.sarif'' ''5'')))
     = [''C:/pmd'' @ [CHR 0x5C] @ ''bin'' @ [CHR 0x5C] @ ''pmd.bat'']"
proof -
  have p7: "isPmd7Cli (version \<lparr>version = ''7.0.0-rc1'', path = ''/opt/pmd''\<rparr>) = Inr True"
    by (simp add: isPmd7Cli_parsed [OF parse_7_0_0_rc1])
  have p6: "isPmd7Cli (version \<lparr>version = ''6.40.0'', path = ''C:/pmd''\<rparr>) = Inr False"
    by (simp add: isPmd7Cli_parsed [OF parse_6_40_0])
  have w: "\<forall>fileList. FileList [''a.txt'', ''b.txt''] = FileList fileList \<longrightarrow>
             fs_writeFile example_env ''pmd.filelist'' (join_with '','' fileList) = Inr ()"
    by (simp add: example_env_def)
  have s: "\<forall>fileList. SourcePath ''.'' = FileList fileList \<longrightarrow>
             fs_writeFile (example_env\<lparr>platform := ''win32''\<rparr>) ''pmd.filelist''
               (join_with '','' fileList) = Inr ()"
    by simp
  show ?thesis
    using executePmd_executable [OF p7 w, of "''ruleset.xml''" "''sarif''" "''pmd-report.sarif''" "''5''"]
      executePmd_executable [OF p6 s, of "''ruleset.xml''" "''sarif''" "''pmd-report.sarif''" "''5''"]
    by (simp add: example_env_def)
qed

text \<open>
  Claim C2. For every version that \<^verbatim>\<open>semver\<close> accepts, the argument vector of the launched
  process is, in this order: the no-cache flag, the flags of the source selector,
  \<^verbatim>\<open>-f <reportFormat>\<close>, \<^verbatim>\<open>-R <ruleset>\<close>, \<^verbatim>\<open>-r <reportFile>\<close>,
  \<^verbatim>\<open>--minimum-priority <minimumPriority>\<close>. For version 6.40.0, path \<^verbatim>\<open>.\<close>, ruleset
  \<^verbatim>\<open>ruleset.xml\<close>, format \<^verbatim>\<open>sarif\<close>, report \<^verbatim>\<open>pmd-report.sarif\<close> and priority 5 it is
  \<^verbatim>\<open>-no-cache -d . -f sarif -R ruleset.xml -r pmd-report.sarif --minimum-priority 5\<close>; for
  version 6.41.0 the first argument is \<^verbatim>\<open>--no-cache\<close> instead.
\<close>

theorem executePmd_argument_order:
  assumes "useNewArgsFormat (version pmdInfo) = Inr newArgs"
      and "\<forall>fileList. selector = FileList fileList \<longrightarrow>
             fs_writeFile E ''pmd.filelist'' (join_with '','' fileList) = Inr ()"
  shows "map snd (launched (fst (executePmd E pmdInfo selector ruleset reportFormat reportFile
                                   minimumPriority))) =
           [[if newArgs then ''--no-cache'' else ''-no-cache'']
            @ (case selector of
                 FileList fileList \<Rightarrow>
                   [if newArgs then ''--file-list'' else ''-filelist'', ''pmd.filelist'']
               | SourcePath sourcePath \<Rightarrow> [''-d'', sourcePath])
            @ [''-f'', reportFormat, ''-R'', ruleset, ''-r'', reportFile,
               ''--minimum-priority'', minimumPriority]]
       \<and> map snd (launched (fst (executePmd E \<lparr>version = ''6.40.0'', path = root\<rparr>
             (SourcePath ''.'') ''ruleset.xml'' ''sarif'' ''pmd-report.sarif'' ''5''))) =
           [[''-no-cache'', ''-d'', ''.'', ''-f'', ''sarif'', ''-R'', ''ruleset.xml'',
             ''-r'', ''pmd-report.sarif'', ''--minimum-priority'', ''5'']]
       \<and> map snd (launched (fst (executePmd E \<lparr>version = ''6.41.0'', path = root\<rparr>
             (SourcePath ''.'') ''ruleset.xml'' ''sarif'' ''pmd-report.sarif'' ''5''))) =
           [[''--no-cache'', ''-d'', ''.'', ''-f'', ''sarif'', ''-R'', ''ruleset.xml'',
             ''-r'', ''pmd-report.sarif'', ''--minimum-priority'', ''5'']]"
proof -
  obtain pmd7 where p: "isPmd7Cli (version pmdInfo) = Inr pmd7"
    using useNewArgsFormat_Inr [OF assms(1)] by blast
  have general: "map snd (launched (fst (executePmd E pmdInfo selector ruleset reportFormat
                   reportFile minimumPriority))) =
           [[if newArgs then ''--no-cache'' else ''-no-cache'']
            @ (case selector of
                 FileList fileList \<Rightarrow>
                   [if newArgs then ''--file-list'' else ''-filelist'', ''pmd.filelist'']
               | SourcePath sourcePath \<Rightarrow> [''-d'', sourcePath])
            @ [''-f'', reportFormat, ''-R'', ruleset, ''-r'', reportFile,
               ''--minimum-priority'', minimumPriority]]"
    using executePmd_launched [OF p assms(1) assms(2)]
    by (simp add: expected_arguments_def)
  have old: "map snd (launched (fst (executePmd E \<lparr>version = ''6.40.0'', path = root\<rparr>
             (SourcePath ''.'') ''ruleset.xml'' ''sarif'' ''pmd-report.sarif'' ''5''))) =
           [[''-no-cache'', ''-d'', ''.'', ''-f'', ''sarif'', ''-R'', ''ruleset.xml'',
             ''-r'', ''pmd-report.sarif'', ''--minimum-priority'', ''5'']]"
  proof -
    have a: "isPmd7Cli (version \<lparr>version = ''6.40.0'', path = root\<rparr>) = Inr False"
      and b: "useNewArgsFormat (version \<lparr>version = ''6.40.0'', path = root\<rparr>) = Inr False"
      by (simp_all add: isPmd7Cli_parsed [OF parse_6_40_0]
            useNewArgsFormat_parsed [OF parse_6_40_0])
    show ?thesis
      by (simp add: executePmd_SourcePath [OF a b] expected_arguments_def)
  qed
  have new: "map snd (launched (fst (executePmd E \<lparr>version = ''6.41.0'', path = root\<rparr>
             (SourcePath ''.'') ''ruleset.xml'' ''sarif'' ''pmd-report.sarif'' ''5''))) =
           [[''--no-cache'', ''-d'', ''.'', ''-f'', ''sarif'', ''-R'', ''ruleset.xml'',
             ''-r'', ''pmd-report.sarif'', ''--minimum-priority'', ''5'']]"
  proof -
    have a: "isPmd7Cli (version \<lparr>version = ''6.41.0'', path = root\<rparr>) = Inr False"
      and b: "useNewArgsFormat (version \<lparr>version = ''6.41.0'', path = root\<rparr>) = Inr True"
      by (simp_all add: isPmd7Cli_parsed [OF parse_6_41_0]
            useNewArgsFormat_parsed [OF parse_6_41_0])
    show ?thesis
      by (simp add: executePmd_SourcePath [OF a b] expected_arguments_def)
  qed
  show ?thesis using general old new by simp
qed

theorem executePmd_argument_order_witness:
  "map snd (launched (fst (executePmd example_env \<lparr>version = ''7.0.0-rc1'', path = ''/opt/pmd''\<rparr>
      (FileList [''a.txt'', ''b.txt'']) ''ruleset.xml'' ''sarif'' ''pmd-report.sarif'' ''5'')))
     = [[''--no-cache'', ''--file-list'', ''pmd.filelist'', ''-f'', ''sarif'', ''-R'',
         ''ruleset.xml'', ''-r'', ''pmd-report.sarif'', ''--minimum-priority'', ''5'']]"
proof -
  have n7: "useNewArgsFormat (version \<lparr>version = ''7.0.0-rc1'', path = ''/opt/pmd''\<rparr>) = Inr True"
    by (simp add: useNewArgsFormat_parsed [OF parse_7_0_0_rc1])
  have w: "\<forall>fileList. FileList [''a.txt'', ''b.txt''] = FileList fileList \<longrightarrow>
             fs_writeFile example_env ''pmd.filelist'' (join_with '','' fileList) = Inr ()"
    by (simp add: example_env_def)
  show ?thesis
    using executePmd_argument_order [OF n7 w, of "''ruleset.xml''" "''sarif''"
        "''pmd-report.sarif''" "''5''"]
    by simp
qed

text \<open>
  Claim C7. With a file list as source selector and a version that \<^verbatim>\<open>semver\<close> accepts,
  \<open>executePmd\<close> first writes the list, joined by commas, to the file \<^verbatim>\<open>pmd.filelist\<close>, and
  writes nothing else; when the write succeeds it launches the process with the
  arguments \<^verbatim>\<open>--file-list pmd.filelist\<close> after the no-cache flag if \<open>useNewArgsFormat\<close>
  holds of the version, and \<^verbatim>\<open>-filelist pmd.filelist\<close> otherwise. The list of
  \<^verbatim>\<open>a.txt\<close> and \<^verbatim>\<open>b.txt\<close> is written as \<^verbatim>\<open>a.txt,b.txt\<close>.
\<close>

theorem executePmd_file_list:
  assumes "useNewArgsFormat (version pmdInfo) = Inr newArgs"
  shows "written (fst (executePmd E pmdInfo (FileList fileList) ruleset reportFormat reportFile
                         minimumPriority)) = [(''pmd.filelist'', join_with '','' fileList)]
       \<and> (\<exists>rest. fst (executePmd E pmdInfo (FileList fileList) ruleset reportFormat reportFile
                         minimumPriority)
                  = WriteFile ''pmd.filelist'' (join_with '','' fileList) # rest)
       \<and> (fs_writeFile E ''pmd.filelist'' (join_with '','' fileList) = Inr () \<longrightarrow>
            (\<exists>commandLine noCache rest.
               fst (executePmd E pmdInfo (FileList fileList) ruleset reportFormat reportFile
                      minimumPriority)
               = [WriteFile ''pmd.filelist'' (join_with '','' fileList),
                  GetExecOutput commandLine
                    (noCache # (if newArgs then ''--file-list'' else ''-filelist'')
                       # ''pmd.filelist'' # rest) True]))
       \<and> join_with '','' [''a.txt'', ''b.txt''] = ''a.txt,b.txt''"
proof -
  obtain pmd7 where p: "isPmd7Cli (version pmdInfo) = Inr pmd7"
    using useNewArgsFormat_Inr [OF assms] by blast
  show ?thesis
    by (cases "fs_writeFile E ''pmd.filelist'' (join_with '','' fileList)")
      (simp_all add: executePmd_FileList [OF p assms] expected_arguments_def)
qed

theorem executePmd_file_list_witness:
  "fst (executePmd example_env \<lparr>version = ''6.40.0'', path = ''/opt/pmd''\<rparr>
      (FileList [''a.txt'', ''b.txt'']) ''ruleset.xml'' ''sarif'' ''pmd-report.sarif'' ''5'')
     = [WriteFile ''pmd.filelist'' ''a.txt,b.txt'',
        GetExecOutput ''/opt/pmd/bin/run.sh pmd''
          [''-no-cache'', ''-filelist'', ''pmd.filelist'', ''-f'', ''sarif'', ''-R'',
           ''ruleset.xml'', ''-r'', ''pmd-report.sarif'', ''--minimum-priority'', ''5'']
          True]"
proof -
  have n6: "useNewArgsFormat (version \<lparr>version = ''6.40.0'', path = ''/opt/pmd''\<rparr>) = Inr False"
    by (simp add: useNewArgsFormat_parsed [OF parse_6_40_0])
  have p6: "isPmd7Cli (version \<lparr>version = ''6.40.0'', path = ''/opt/pmd''\<rparr>) = Inr False"
    by (simp add: isPmd7Cli_parsed [OF parse_6_40_0])
  have run: "executePmd example_env \<lparr>version = ''6.40.0'', path = ''/opt/pmd''\<rparr>
      (FileList [''a.txt'', ''b.txt'']) ''ruleset.xml'' ''sarif'' ''pmd-report.sarif'' ''5''
     = ([WriteFile ''pmd.filelist'' ''a.txt,b.txt'',
         GetExecOutput ''/opt/pmd/bin/run.sh pmd''
          [''-no-cache'', ''-filelist'', ''pmd.filelist'', ''-f'', ''sarif'', ''-R'',
           ''ruleset.xml'', ''-r'', ''pmd-report.sarif'', ''--minimum-priority'', ''5'']
          True], Inr \<lparr>exitCode = 0, stdout = [], stderr = []\<rparr>)"
    by (simp add: executePmd_FileList [OF p6 n6] example_env_def expected_arguments_def
          expected_executable_def)
  show ?thesis
    using executePmd_file_list [OF n6, of example_env "[''a.txt'', ''b.txt'']" "''ruleset.xml''"
        "''sarif''" "''pmd-report.sarif''" "''5''"]
    by (simp add: run)
qed


section \<open>The change set: pagination, truncation, filtering\<close>

lemma answered_files_nonempty:
  "answered_files answer \<noteq> [] \<Longrightarrow>
     \<exists>allFiles. snd answer = Inr (Some allFiles) \<and> allFiles \<noteq> []"
  by (auto simp add: answered_files_def split: sum.splits option.splits)

lemma answered_files_pull_request:
  "answered_files (pull_request_fetch E context q) =
     (case listFiles E (number (payload context)) 30 q of Inr es \<Rightarrow> es | Inl e \<Rightarrow> [])"
  by (simp add: answered_files_def pull_request_fetch_def split: sum.splits)

lemma determineModifiedFiles_stop:
  assumes "token \<noteq> []"
      and "eventName context = ''pull_request'' \<or> eventName context = ''push''"
      and "1 \<le> k" and "k \<le> MAX_PAGE"
      and "\<forall>q. 1 \<le> q \<and> q < k \<longrightarrow> answered_files (event_fetch E context q) \<noteq> []"
      and "snd (event_fetch E context k) = Inr None
           \<or> snd (event_fetch E context k) = Inr (Some [])"
  shows "determineModifiedFiles E context token sourcePath =
           (map (\<lambda>q. fst (event_fetch E context q)) [1..<Suc k]
              @ (if k = MAX_PAGE then [Warning (event_warning context)] else []),
            Inr (Some (first_occurrences (gathered E (event_fetch E context) sourcePath [1..<k]))))"
proof -
  have ne: "\<forall>q. 1 \<le> q \<and> q < k \<longrightarrow>
              (\<exists>allFiles. snd (event_fetch E context q) = Inr (Some allFiles) \<and> allFiles \<noteq> [])"
    using assms(5) answered_files_nonempty by blast
  have "page_loop E (event_fetch E context) sourcePath 1 [] [] =
          ([] @ map (\<lambda>q. fst (event_fetch E context q)) [1..<Suc k],
           Inr (k, foldl Set_add [] (gathered E (event_fetch E context) sourcePath [1..<k])))"
    using assms(3,4) ne assms(6) by (rule page_loop_stop)
  then show ?thesis
    using assms(4)
    by (simp add: determineModifiedFiles_supported [OF assms(1,2)] foldl_Set_add_Nil)
qed

lemma determineModifiedFiles_full:
  assumes "token \<noteq> []"
      and "eventName context = ''pull_request'' \<or> eventName context = ''push''"
      and "\<forall>q. 1 \<le> q \<and> q \<le> MAX_PAGE \<longrightarrow> answered_files (event_fetch E context q) \<noteq> []"
  shows "determineModifiedFiles E context token sourcePath =
           (map (\<lambda>q. fst (event_fetch E context q)) [1..<Suc MAX_PAGE]
              @ [Warning (event_warning context)],
            Inr (Some (first_occurrences
                         (gathered E (event_fetch E context) sourcePath [1..<Suc MAX_PAGE]))))"
proof -
  have ne: "\<forall>q. 1 \<le> q \<and> q \<le> MAX_PAGE \<longrightarrow>
              (\<exists>allFiles. snd (event_fetch E context q) = Inr (Some allFiles) \<and> allFiles \<noteq> [])"
    using assms(3) answered_files_nonempty by blast
  have "page_loop E (event_fetch E context) sourcePath 1 [] [] =
          ([] @ map (\<lambda>q. fst (event_fetch E context q)) [1..<Suc MAX_PAGE],
           Inr (Suc MAX_PAGE,
                foldl Set_add [] (gathered E (event_fetch E context) sourcePath [1..<Suc MAX_PAGE])))"
    using _ ne by (rule page_loop_full) simp
  then show ?thesis
    by (simp add: determineModifiedFiles_supported [OF assms(1,2)] foldl_Set_add_Nil)
qed

text \<open>
  Claim C1. For a pull request and a token that is not empty, \<open>determineModifiedFiles\<close>
  requests the pages 1, 2, ... of \<^verbatim>\<open>listFiles\<close> with page size 30. If page \<open>k\<close> is the first page without entries, for a
  \<open>k\<close> up to \<open>MAX_PAGE\<close> = 10, the requests are exactly those of the pages 1 to \<open>k\<close>, and the
  result is the filtered filenames of the pages before \<open>k\<close>, without repetitions. If
  all of the pages 1 to 10 have entries, the requests are those of the pages 1 to 10,
  the warning follows them, and the result is still everything gathered.
\<close>

theorem pull_request_pagination:
  assumes "eventName context = ''pull_request''" and "token \<noteq> []"
  shows "(\<forall>k. 1 \<le> k \<and> k \<le> MAX_PAGE
             \<and> (\<forall>q. 1 \<le> q \<and> q < k \<longrightarrow>
                   (\<exists>es. listFiles E (number (payload context)) 30 q = Inr es \<and> es \<noteq> []))
             \<and> listFiles E (number (payload context)) 30 k = Inr []
           \<longrightarrow> determineModifiedFiles E context token sourcePath =
                 (map (\<lambda>q. ListFiles (owner context) (repo context) (number (payload context))
                             30 q) [1..<Suc k]
                    @ (if k = MAX_PAGE then [Warning (pull_request_warning context)] else []),
                  Inr (Some (first_occurrences (concat (map
                    (\<lambda>q. extractFilenames E
                           (case listFiles E (number (payload context)) 30 q of
                              Inr es \<Rightarrow> es | Inl e \<Rightarrow> []) q sourcePath)
                    [1..<k]))))))
       \<and> ((\<forall>q. 1 \<le> q \<and> q \<le> MAX_PAGE \<longrightarrow>
               (\<exists>es. listFiles E (number (payload context)) 30 q = Inr es \<and> es \<noteq> []))
           \<longrightarrow> determineModifiedFiles E context token sourcePath =
                 (map (\<lambda>q. ListFiles (owner context) (repo context) (number (payload context))
                             30 q) [1..<Suc MAX_PAGE]
                    @ [Warning (pull_request_warning context)],
                  Inr (Some (first_occurrences (concat (map
                    (\<lambda>q. extractFilenames E
                           (case listFiles E (number (payload context)) 30 q of
                              Inr es \<Rightarrow> es | Inl e \<Rightarrow> []) q sourcePath)
                    [1..<Suc MAX_PAGE]))))))
       \<and> MAX_PAGE = 10"
proof -
  have ev: "eventName context = ''pull_request'' \<or> eventName context = ''push''"
    using assms(1) by simp
  have tok: "token \<noteq> []" by (rule assms(2))
  have fetch: "event_fetch E context = pull_request_fetch E context"
    using assms(1) by (simp add: event_fetch_def)
  have warning: "event_warning context = pull_request_warning context"
    using assms(1) by (simp add: event_warning_def)
  have request: "\<And>q. fst (pull_request_fetch E context q) =
                   ListFiles (owner context) (repo context) (number (payload context)) 30 q"
    by (simp add: pull_request_fetch_def)
  have stop: "determineModifiedFiles E context token sourcePath =
                 (map (\<lambda>q. ListFiles (owner context) (repo context) (number (payload context))
                             30 q) [1..<Suc k]
                    @ (if k = MAX_PAGE then [Warning (pull_request_warning context)] else []),
                  Inr (Some (first_occurrences (concat (map
                    (\<lambda>q. extractFilenames E
                           (case listFiles E (number (payload context)) 30 q of
                              Inr es \<Rightarrow> es | Inl e \<Rightarrow> []) q sourcePath)
                    [1..<k])))))"
    if k: "1 \<le> k" "k \<le> MAX_PAGE"
      and before: "\<forall>q. 1 \<le> q \<and> q < k \<longrightarrow>
                   (\<exists>es. listFiles E (number (payload context)) 30 q = Inr es \<and> es \<noteq> [])"
      and empty: "listFiles E (number (payload context)) 30 k = Inr []"
    for k
  proof -
    have ne: "\<forall>q. 1 \<le> q \<and> q < k \<longrightarrow> answered_files (event_fetch E context q) \<noteq> []"
      using before by (auto simp add: fetch answered_files_pull_request)
    have em: "snd (event_fetch E context k) = Inr None
              \<or> snd (event_fetch E context k) = Inr (Some [])"
      using empty by (simp add: fetch pull_request_fetch_def)
    show ?thesis
      using determineModifiedFiles_stop [OF tok ev k ne em, of sourcePath]
      by (simp add: fetch warning request gathered_def answered_files_pull_request)
  qed
  have full: "determineModifiedFiles E context token sourcePath =
                 (map (\<lambda>q. ListFiles (owner context) (repo context) (number (payload context))
                             30 q) [1..<Suc MAX_PAGE]
                    @ [Warning (pull_request_warning context)],
                  Inr (Some (first_occurrences (concat (map
                    (\<lambda>q. extractFilenames E
                           (case listFiles E (number (payload context)) 30 q of
                              Inr es \<Rightarrow> es | Inl e \<Rightarrow> []) q sourcePath)
                    [1..<Suc MAX_PAGE])))))"
    if all: "\<forall>q. 1 \<le> q \<and> q \<le> MAX_PAGE \<longrightarrow>
               (\<exists>es. listFiles E (number (payload context)) 30 q = Inr es \<and> es \<noteq> [])"
  proof -
    have ne: "\<forall>q. 1 \<le> q \<and> q \<le> MAX_PAGE \<longrightarrow> answered_files (event_fetch E context q) \<noteq> []"
      using all by (auto simp add: fetch answered_files_pull_request)
    show ?thesis
      using determineModifiedFiles_full [OF tok ev ne, of sourcePath]
      by (simp add: fetch warning request gathered_def answered_files_pull_request)
  qed
  show ?thesis
    using stop full by (simp add: MAX_PAGE_def)
qed

lemma extractFilenames_page_of_entries:
  "extractFilenames example_env page_of_entries q ''src/main/java'' =
     [''src/main/java/AvoidCatchingThrowableSample.java'', ''src/main/java/NewFile.java'',
      ''src/main/java/ChangedFile.java'']"
  unfolding extractFilenames_def Let_def by code_simp

theorem pull_request_pagination_witness:
  "determineModifiedFiles example_env (example_context ''pull_request'' 1) ''my-token''
     ''src/main/java''
   = ([ListFiles ''pmd'' ''pmd-github-action-tests'' 1 30 1,
       ListFiles ''pmd'' ''pmd-github-action-tests'' 1 30 2],
      Inr (Some [''src/main/java/AvoidCatchingThrowableSample.java'',
                 ''src/main/java/NewFile.java'', ''src/main/java/ChangedFile.java'']))
   \<and> determineModifiedFiles example_env (example_context ''pull_request'' 2) ''my-token''
     ''src/main/java''
   = (map (ListFiles ''pmd'' ''pmd-github-action-tests'' 2 30) [1, 2, 3, 4, 5, 6, 7, 8, 9, 10]
        @ [Warning ''The pull request 2 is too big - not all changed files will be analyzed!''],
      Inr (Some [''src/main/java/AvoidCatchingThrowableSample.java'',
                 ''src/main/java/NewFile.java'', ''src/main/java/ChangedFile.java'']))"
proof -
  have ev: "eventName (example_context ''pull_request'' n) = ''pull_request''" for n
    by (simp add: example_context_def)
  have n: "number (payload (example_context ''pull_request'' n)) = n"
    "owner (example_context ''pull_request'' n) = ''pmd''"
    "repo (example_context ''pull_request'' n) = ''pmd-github-action-tests''" for n
    by (simp_all add: example_context_def)
  have l1: "listFiles example_env 1 30 1 = Inr page_of_entries"
    and l2: "listFiles example_env 1 30 2 = Inr []"
    and l: "listFiles example_env 2 30 q = Inr page_of_entries" for q
    by (simp_all add: example_env_def)
  have p: "page_of_entries \<noteq> []" by (simp add: page_of_entries_def)
  have before: "\<forall>q. 1 \<le> q \<and> q < (2::nat) \<longrightarrow>
                  (\<exists>es. listFiles example_env 1 30 q = Inr es \<and> es \<noteq> [])"
  proof (intro allI impI)
    fix q :: nat assume "1 \<le> q \<and> q < 2"
    then have "q = 1" by simp
    then show "\<exists>es. listFiles example_env 1 30 q = Inr es \<and> es \<noteq> []"
      using l1 p by simp
  qed
  have upt: "[1..<3] = [1, 2::nat]" "[1..<2] = [1::nat]"
    "[1..<Suc MAX_PAGE] = [1, 2, 3, 4, 5, 6, 7, 8, 9, 10]"
    by (simp_all add: upt_rec MAX_PAGE_def)
  have w: "pull_request_warning (example_context ''pull_request'' 2) =
             ''The pull request 2 is too big - not all changed files will be analyzed!''"
    by code_simp
  have tok: "''my-token'' \<noteq> []" by simp
  from pull_request_pagination [OF ev [of 1] tok, of example_env "''src/main/java''"]
  have "1 \<le> (2::nat) \<and> 2 \<le> MAX_PAGE
             \<and> (\<forall>q. 1 \<le> q \<and> q < 2 \<longrightarrow>
                   (\<exists>es. listFiles example_env 1 30 q = Inr es \<and> es \<noteq> []))
             \<and> listFiles example_env 1 30 2 = Inr []
           \<longrightarrow> determineModifiedFiles example_env (example_context ''pull_request'' 1)
                 ''my-token'' ''src/main/java'' =
                 (map (\<lambda>q. ListFiles ''pmd'' ''pmd-github-action-tests'' 1 30 q) [1..<Suc 2]
                    @ (if 2 = MAX_PAGE
                       then [Warning (pull_request_warning (example_context ''pull_request'' 1))]
                       else []),
                  Inr (Some (first_occurrences (concat (map
                    (\<lambda>q. extractFilenames example_env
                           (case listFiles example_env 1 30 q of
                              Inr es \<Rightarrow> es | Inl e \<Rightarrow> []) q ''src/main/java'')
                    [1..<2])))))"
    unfolding n by blast
  then have first: "determineModifiedFiles example_env (example_context ''pull_request'' 1)
     ''my-token'' ''src/main/java''
   = ([ListFiles ''pmd'' ''pmd-github-action-tests'' 1 30 1,
       ListFiles ''pmd'' ''pmd-github-action-tests'' 1 30 2],
      Inr (Some [''src/main/java/AvoidCatchingThrowableSample.java'',
                 ''src/main/java/NewFile.java'', ''src/main/java/ChangedFile.java'']))"
    using before l2
    by (simp add: MAX_PAGE_def upt(1,2) l1 extractFilenames_page_of_entries del: One_nat_def)
  from pull_request_pagination [OF ev [of 2] tok, of example_env "''src/main/java''"]
  have "(\<forall>q. 1 \<le> q \<and> q \<le> MAX_PAGE \<longrightarrow>
               (\<exists>es. listFiles example_env 2 30 q = Inr es \<and> es \<noteq> []))
           \<longrightarrow> determineModifiedFiles example_env (example_context ''pull_request'' 2)
                 ''my-token'' ''src/main/java'' =
                 (map (\<lambda>q. ListFiles ''pmd'' ''pmd-github-action-tests'' 2 30 q)
                    [1..<Suc MAX_PAGE]
                    @ [Warning (pull_request_warning (example_context ''pull_request'' 2))],
                  Inr (Some (first_occurrences (concat (map
                    (\<lambda>q. extractFilenames example_env
                           (case listFiles example_env 2 30 q of
                              Inr es \<Rightarrow> es | Inl e \<Rightarrow> []) q ''src/main/java'')
                    [1..<Suc MAX_PAGE])))))"
    unfolding n by blast
  then have second: "determineModifiedFiles example_env (example_context ''pull_request'' 2)
     ''my-token'' ''src/main/java''
   = (map (ListFiles ''pmd'' ''pmd-github-action-tests'' 2 30) [1, 2, 3, 4, 5, 6, 7, 8, 9, 10]
        @ [Warning ''The pull request 2 is too big - not all changed files will be analyzed!''],
      Inr (Some [''src/main/java/AvoidCatchingThrowableSample.java'',
                 ''src/main/java/NewFile.java'', ''src/main/java/ChangedFile.java'']))"
    using p unfolding upt(3) w by (simp add: l extractFilenames_page_of_entries)
  show ?thesis
    using first second by simp
qed

text \<open>
  Claim C9. For both supported event kinds, in a run that returns a list the warning is
  emitted exactly when the page counter is \<open>MAX_PAGE\<close> or more after the loop, that is when
  each of the pages 1 to 9 has entries. In particular, when the token is not empty, the
  pages 1 to 9 have entries and page 10 has none, all ten pages are requested, the result
  holds the filenames of all nine pages, so it is complete, and the warning is emitted
  all the same.
\<close>

theorem truncation_warning_condition:
  assumes "eventName context = ''pull_request'' \<or> eventName context = ''push''"
  shows "(\<forall>tr files. determineModifiedFiles E context token sourcePath = (tr, Inr (Some files))
            \<longrightarrow> (Warning (event_warning context) \<in> set tr \<longleftrightarrow>
                   (\<forall>q. 1 \<le> q \<and> q < MAX_PAGE \<longrightarrow>
                        answered_files (event_fetch E context q) \<noteq> [])))
       \<and> (token \<noteq> []
            \<and> (\<forall>q. 1 \<le> q \<and> q < MAX_PAGE \<longrightarrow> answered_files (event_fetch E context q) \<noteq> [])
            \<and> (snd (event_fetch E context MAX_PAGE) = Inr None
               \<or> snd (event_fetch E context MAX_PAGE) = Inr (Some []))
           \<longrightarrow> determineModifiedFiles E context token sourcePath =
                 (map (\<lambda>q. fst (event_fetch E context q)) [1..<Suc MAX_PAGE]
                    @ [Warning (event_warning context)],
                  Inr (Some (first_occurrences
                     (concat (map (\<lambda>q. extractFilenames E (answered_files (event_fetch E context q))
                                          q sourcePath) [1..<MAX_PAGE]))))))
       \<and> MAX_PAGE = 10"
proof -
  have iff: "Warning (event_warning context) \<in> set tr \<longleftrightarrow>
               (\<forall>q. 1 \<le> q \<and> q < MAX_PAGE \<longrightarrow> answered_files (event_fetch E context q) \<noteq> [])"
    if run: "determineModifiedFiles E context token sourcePath = (tr, Inr (Some files))"
    for tr files
  proof -
    have tok: "token \<noteq> []"
      using run by (rule determineModifiedFiles_Some_token)
    obtain tr' r where pl: "page_loop E (event_fetch E context) sourcePath 1 [] [] = (tr', r)"
      by (cases "page_loop E (event_fetch E context) sourcePath 1 [] []")
    from run obtain k where r: "r = Inr (k, files)"
      unfolding determineModifiedFiles_supported [OF tok assms] pl
      by (auto split: sum.splits prod.splits)
    have tr: "tr = tr' @ (if MAX_PAGE \<le> k then [Warning (event_warning context)] else [])"
      using run unfolding determineModifiedFiles_supported [OF tok assms] pl r by simp
    have endp: "1 \<le> k \<and> k \<le> Suc MAX_PAGE
       \<and> (\<forall>q. 1 \<le> q \<and> q < k \<longrightarrow> answered_files (event_fetch E context q) \<noteq> [])
       \<and> (k \<le> MAX_PAGE \<longrightarrow> answered_files (event_fetch E context k) = [])
       \<and> tr' = [] @ map (\<lambda>q. fst (event_fetch E context q)) [1..<min (Suc k) (Suc MAX_PAGE)]"
      using page_loop_end [OF pl [unfolded r]] by simp
    have "Warning (event_warning context) \<notin> set tr'"
    proof
      assume "Warning (event_warning context) \<in> set tr'"
      then have "Warning (event_warning context)
                   \<in> (\<lambda>q. fst (event_fetch E context q)) ` set [1..<min (Suc k) (Suc MAX_PAGE)]"
        using endp by simp
      then obtain q where "fst (event_fetch E context q) = Warning (event_warning context)"
        by (auto simp del: set_upt)
      then show False using event_fetch_not_Warning by blast
    qed
    then have w: "Warning (event_warning context) \<in> set tr \<longleftrightarrow> MAX_PAGE \<le> k"
      by (simp add: tr)
    have "MAX_PAGE \<le> k \<longleftrightarrow>
            (\<forall>q. 1 \<le> q \<and> q < MAX_PAGE \<longrightarrow> answered_files (event_fetch E context q) \<noteq> [])"
    proof
      assume "MAX_PAGE \<le> k"
      then show "\<forall>q. 1 \<le> q \<and> q < MAX_PAGE \<longrightarrow> answered_files (event_fetch E context q) \<noteq> []"
        using endp by auto
    next
      assume all: "\<forall>q. 1 \<le> q \<and> q < MAX_PAGE \<longrightarrow>
                     answered_files (event_fetch E context q) \<noteq> []"
      show "MAX_PAGE \<le> k"
      proof (rule ccontr)
        assume "\<not> MAX_PAGE \<le> k"
        then have "1 \<le> k \<and> k < MAX_PAGE" "answered_files (event_fetch E context k) = []"
          using endp by auto
        then show False using all by blast
      qed
    qed
    then show ?thesis using w by simp
  qed
  have tenth: "determineModifiedFiles E context token sourcePath =
                 (map (\<lambda>q. fst (event_fetch E context q)) [1..<Suc MAX_PAGE]
                    @ [Warning (event_warning context)],
                  Inr (Some (first_occurrences
                     (concat (map (\<lambda>q. extractFilenames E (answered_files (event_fetch E context q))
                                          q sourcePath) [1..<MAX_PAGE])))))"
    if tok: "token \<noteq> []"
      and ne: "\<forall>q. 1 \<le> q \<and> q < MAX_PAGE \<longrightarrow> answered_files (event_fetch E context q) \<noteq> []"
      and em: "snd (event_fetch E context MAX_PAGE) = Inr None
               \<or> snd (event_fetch E context MAX_PAGE) = Inr (Some [])"
  proof -
    have "1 \<le> MAX_PAGE" "MAX_PAGE \<le> MAX_PAGE" by (simp_all add: MAX_PAGE_def)
    from determineModifiedFiles_stop [OF tok assms this ne em, of sourcePath]
    show ?thesis by (simp add: gathered_def)
  qed
  show ?thesis
    using iff tenth by (simp add: MAX_PAGE_def)
qed

lemma example_warning:
  "pull_request_warning (example_context ''pull_request'' 3) =
     ''The pull request 3 is too big - not all changed files will be analyzed!''"
  by code_simp

lemma example_fetch:
  "event_fetch example_env (example_context ''pull_request'' 3) q =
     (ListFiles ''pmd'' ''pmd-github-action-tests'' 3 30 q,
      Inr (Some (if q < 10 then page_of_entries else [])))"
  by (simp add: event_fetch_def pull_request_fetch_def example_env_def example_context_def)

theorem truncation_warning_condition_witness:
  "determineModifiedFiles example_env (example_context ''pull_request'' 3) ''my-token''
     ''src/main/java''
   = (map (ListFiles ''pmd'' ''pmd-github-action-tests'' 3 30) [1, 2, 3, 4, 5, 6, 7, 8, 9, 10]
        @ [Warning ''The pull request 3 is too big - not all changed files will be analyzed!''],
      Inr (Some [''src/main/java/AvoidCatchingThrowableSample.java'',
                 ''src/main/java/NewFile.java'', ''src/main/java/ChangedFile.java'']))"
proof -
  have ev: "eventName (example_context ''pull_request'' 3) = ''pull_request''
            \<or> eventName (example_context ''pull_request'' 3) = ''push''"
    by (simp add: example_context_def)
  have w: "event_warning (example_context ''pull_request'' 3) =
             ''The pull request 3 is too big - not all changed files will be analyzed!''"
    using example_warning by (simp add: event_warning_def example_context_def)
  have p: "page_of_entries \<noteq> []" by (simp add: page_of_entries_def)
  have tok: "''my-token'' \<noteq> []" by simp
  have ne: "\<forall>q. 1 \<le> q \<and> q < MAX_PAGE \<longrightarrow>
              answered_files (event_fetch example_env (example_context ''pull_request'' 3) q) \<noteq> []"
    using p by (simp add: example_fetch answered_files_def MAX_PAGE_def)
  have em: "snd (event_fetch example_env (example_context ''pull_request'' 3) MAX_PAGE) = Inr None
            \<or> snd (event_fetch example_env (example_context ''pull_request'' 3) MAX_PAGE)
               = Inr (Some [])"
    by (simp add: example_fetch MAX_PAGE_def)
  have pages: "[1..<Suc MAX_PAGE] = [1, 2, 3, 4, 5, 6, 7, 8, 9, 10]"
    "[1..<MAX_PAGE] = [1, 2, 3, 4, 5, 6, 7, 8, 9]"
    by (simp_all add: MAX_PAGE_def upt_rec)
  have files: "first_occurrences
                 (concat (map (\<lambda>q. extractFilenames example_env
                      (answered_files (event_fetch example_env (example_context ''pull_request'' 3) q))
                      q ''src/main/java'') [1, 2, 3, 4, 5, 6, 7, 8, 9]))
               = [''src/main/java/AvoidCatchingThrowableSample.java'',
                  ''src/main/java/NewFile.java'', ''src/main/java/ChangedFile.java'']"
    by (simp add: example_fetch answered_files_def extractFilenames_page_of_entries)
  have "determineModifiedFiles example_env (example_context ''pull_request'' 3) ''my-token''
          ''src/main/java'' =
          (map (\<lambda>q. fst (event_fetch example_env (example_context ''pull_request'' 3) q))
             [1..<Suc MAX_PAGE]
             @ [Warning (event_warning (example_context ''pull_request'' 3))],
           Inr (Some (first_occurrences
              (concat (map (\<lambda>q. extractFilenames example_env
                   (answered_files (event_fetch example_env (example_context ''pull_request'' 3) q))
                   q ''src/main/java'') [1..<MAX_PAGE])))))"
    using truncation_warning_condition [OF ev, of example_env "''my-token''" "''src/main/java''"]
      tok ne em by blast
  then show ?thesis
    unfolding pages files w by (simp add: example_fetch)
qed

lemma gathered_member:
  assumes "f \<in> set (gathered E fetch sourcePath pages)"
  obtains q e where "q \<in> set pages" and "e \<in> set (answered_files (fetch q))"
    and "status e = ''added'' \<or> status e = ''changed'' \<or> status e = ''modified''"
    and "f = host_normalize E (filename e)"
    and "nested_under (host_normalize E) sourcePath f
         \<or> host_normalize E (sourcePath @ ''/'') = ''.''"
proof -
  from assms have "\<exists>q \<in> set pages.
      f \<in> set (extractFilenames E (answered_files (fetch q)) q sourcePath)"
    by (simp add: gathered_def)
  then obtain q where q: "q \<in> set pages"
    and f: "f \<in> set (extractFilenames E (answered_files (fetch q)) q sourcePath)" ..
  from extractFilenames_member [OF f]
  obtain e where e: "e \<in> set (answered_files (fetch q))"
    and p: "(status e = ''added'' \<or> status e = ''changed'' \<or> status e = ''modified'')
            \<and> f = host_normalize E (filename e)
            \<and> (nested_under (host_normalize E) sourcePath f
                 \<or> host_normalize E (sourcePath @ ''/'') = ''.'')" ..
  show thesis
    using q e p [THEN conjunct1] p [THEN conjunct2, THEN conjunct1]
      p [THEN conjunct2, THEN conjunct2]
    by (rule that)
qed

lemma example_host: "host_normalize example_env = path_normalize"
  by (simp add: example_env_def)

lemma example_run:
  "determineModifiedFiles example_env (example_context ''pull_request'' 1) ''my-token''
     ''src/main/java''
   = ([ListFiles ''pmd'' ''pmd-github-action-tests'' 1 30 1,
       ListFiles ''pmd'' ''pmd-github-action-tests'' 1 30 2],
      Inr (Some [''src/main/java/AvoidCatchingThrowableSample.java'',
                 ''src/main/java/NewFile.java'', ''src/main/java/ChangedFile.java'']))"
  by code_simp

text \<open>
  Claim C4. Whatever the pages of change entries and the source path, the list that
  \<open>determineModifiedFiles\<close> returns has no filename twice. Each of its filenames is what
  \<^verbatim>\<open>path.normalize\<close> of the host makes of the filename of an entry, and passes the prefix
  test against the source path: the source path is the current directory, or the
  filename starts with what the host makes of the source path and a separator (the test
  is void in case the host turns that into the current directory, which the POSIX one
  never does). When normalizing twice is the same as normalizing once on the host, each
  filename is a fixed point of the normalization. On a POSIX host each filename is in
  normal form (names separated by single separators, no \<^verbatim>\<open>.\<close> segment, \<^verbatim>\<open>..\<close> only at the
  start of a relative path) and nested under the source path; when the source path is
  itself normalized and is not the current directory, nested means that the filename
  starts with the source path and a separator. The list is the filtered filenames of
  the pages up to the first page without entries, in page order and then in-page order,
  each filename at its first position. For a pull request or a push none of whose
  requests for the pages 1 to \<open>MAX_PAGE\<close> fails, such a list is returned exactly when the
  token is not empty.
\<close>

theorem change_set_invariants:
  "(\<forall>tr files. determineModifiedFiles E context token sourcePath = (tr, Inr (Some files))
      \<longrightarrow> distinct files
        \<and> (\<forall>f \<in> set files.
              (\<exists>q e. 1 \<le> q \<and> q \<le> MAX_PAGE
                   \<and> e \<in> set (answered_files (event_fetch E context q))
                   \<and> f = host_normalize E (filename e))
            \<and> (nested_under (host_normalize E) sourcePath f
                 \<or> host_normalize E (sourcePath @ ''/'') = ''.''))
        \<and> ((\<forall>p. host_normalize E (host_normalize E p) = host_normalize E p)
             \<longrightarrow> (\<forall>f \<in> set files. host_normalize E f = f))
        \<and> (host_normalize E = path_normalize
             \<longrightarrow> (\<forall>f \<in> set files.
                    posix_normal_form f \<and> path_normalize f = f
                  \<and> nested_under path_normalize sourcePath f)
               \<and> (path_normalize sourcePath = sourcePath \<and> sourcePath \<noteq> ''.''
                    \<longrightarrow> (\<forall>f \<in> set files.
                           startsWith f (if last sourcePath = CHR ''/'' then sourcePath
                                         else sourcePath @ ''/''))))
        \<and> files = first_occurrences
                    (concat (map (\<lambda>q. extractFilenames E (answered_files (event_fetch E context q))
                                         q sourcePath)
                       (takeWhile (\<lambda>q. answered_files (event_fetch E context q) \<noteq> [])
                          [1..<Suc MAX_PAGE]))))
   \<and> ((eventName context = ''pull_request'' \<or> eventName context = ''push'')
        \<and> (\<forall>q. 1 \<le> q \<and> q \<le> MAX_PAGE \<longrightarrow> (\<exists>r. snd (event_fetch E context q) = Inr r))
      \<longrightarrow> ((\<exists>tr files.
               determineModifiedFiles E context token sourcePath = (tr, Inr (Some files)))
            \<longleftrightarrow> token \<noteq> []))"
proof -
  let ?N = "host_normalize E"
  let ?pages = "takeWhile (\<lambda>q. answered_files (event_fetch E context q) \<noteq> []) [1..<Suc MAX_PAGE]"
  have invariants: "distinct files
        \<and> (\<forall>f \<in> set files.
              (\<exists>q e. 1 \<le> q \<and> q \<le> MAX_PAGE
                   \<and> e \<in> set (answered_files (event_fetch E context q))
                   \<and> f = ?N (filename e))
            \<and> (nested_under ?N sourcePath f \<or> ?N (sourcePath @ ''/'') = ''.''))
        \<and> ((\<forall>p. ?N (?N p) = ?N p) \<longrightarrow> (\<forall>f \<in> set files. ?N f = f))
        \<and> (?N = path_normalize
             \<longrightarrow> (\<forall>f \<in> set files.
                    posix_normal_form f \<and> path_normalize f = f
                  \<and> nested_under path_normalize sourcePath f)
               \<and> (path_normalize sourcePath = sourcePath \<and> sourcePath \<noteq> ''.''
                    \<longrightarrow> (\<forall>f \<in> set files.
                           startsWith f (if last sourcePath = CHR ''/'' then sourcePath
                                         else sourcePath @ ''/''))))
        \<and> files = first_occurrences
                    (concat (map (\<lambda>q. extractFilenames E (answered_files (event_fetch E context q))
                                         q sourcePath) ?pages))"
    if run: "determineModifiedFiles E context token sourcePath = (tr, Inr (Some files))"
    for tr files
  proof -
    have files: "files = first_occurrences (gathered E (event_fetch E context) sourcePath ?pages)"
      using run by (rule determineModifiedFiles_files)
    have origin: "\<exists>q e. 1 \<le> q \<and> q \<le> MAX_PAGE
                   \<and> e \<in> set (answered_files (event_fetch E context q))
                   \<and> f = ?N (filename e)"
      and nested: "nested_under ?N sourcePath f \<or> ?N (sourcePath @ ''/'') = ''.''"
      if "f \<in> set files" for f
    proof -
      from that have "f \<in> set (gathered E (event_fetch E context) sourcePath ?pages)"
        by (simp add: files)
      then obtain q e where q: "q \<in> set ?pages"
        and e: "e \<in> set (answered_files (event_fetch E context q))"
        and "status e = ''added'' \<or> status e = ''changed'' \<or> status e = ''modified''"
        and f: "f = ?N (filename e)"
        and n: "nested_under ?N sourcePath f \<or> ?N (sourcePath @ ''/'') = ''.''"
        by (rule gathered_member)
      from q have "q \<in> set [1..<Suc MAX_PAGE]" by (rule set_takeWhileD [THEN conjunct1])
      then have "1 \<le> q \<and> q \<le> MAX_PAGE" by auto
      then have "1 \<le> q \<and> q \<le> MAX_PAGE
                   \<and> e \<in> set (answered_files (event_fetch E context q))
                   \<and> f = ?N (filename e)"
        using e f by simp
      then show "\<exists>q e. 1 \<le> q \<and> q \<le> MAX_PAGE
                   \<and> e \<in> set (answered_files (event_fetch E context q))
                   \<and> f = ?N (filename e)"
        by (intro exI)
      show "nested_under ?N sourcePath f \<or> ?N (sourcePath @ ''/'') = ''.''"
        by (rule n)
    qed
    have fixed: "?N f = f" if idem: "\<forall>p. ?N (?N p) = ?N p" and f: "f \<in> set files" for f
    proof -
      from origin [OF f] obtain q where "\<exists>e. 1 \<le> q \<and> q \<le> MAX_PAGE
                   \<and> e \<in> set (answered_files (event_fetch E context q))
                   \<and> f = ?N (filename e)" ..
      then obtain e where "1 \<le> q \<and> q \<le> MAX_PAGE
                   \<and> e \<in> set (answered_files (event_fetch E context q))
                   \<and> f = ?N (filename e)" ..
      then have "f = ?N (filename e)" by simp
      then show ?thesis using idem by simp
    qed
    have posix: "posix_normal_form f \<and> path_normalize f = f
                 \<and> nested_under path_normalize sourcePath f"
      if host: "?N = path_normalize" and f: "f \<in> set files" for f
    proof -
      from origin [OF f] obtain q where "\<exists>e. 1 \<le> q \<and> q \<le> MAX_PAGE
                   \<and> e \<in> set (answered_files (event_fetch E context q))
                   \<and> f = ?N (filename e)" ..
      then obtain e where "1 \<le> q \<and> q \<le> MAX_PAGE
                   \<and> e \<in> set (answered_files (event_fetch E context q))
                   \<and> f = ?N (filename e)" ..
      then have fe: "f = path_normalize (filename e)" by (simp add: host)
      have "nested_under path_normalize sourcePath f"
        using nested [OF f] normalize_dir_not_dot [of sourcePath] by (simp add: host)
      then show ?thesis
        by (simp add: fe normalize_normal_form normalize_idempotent)
    qed
    have prefix: "startsWith f (if last sourcePath = CHR ''/'' then sourcePath
                                else sourcePath @ ''/'')"
      if host: "?N = path_normalize"
        and sp: "path_normalize sourcePath = sourcePath" "sourcePath \<noteq> ''.''"
        and f: "f \<in> set files" for f
    proof -
      have "nested_under path_normalize sourcePath f" using posix [OF host f] by simp
      then have "startsWith f (path_normalize (sourcePath @ ''/''))"
        using sp(2) by (simp add: nested_under_def)
      then show ?thesis
        by (simp only: normalize_directory [OF sp])
    qed
    have d: "distinct files" by (simp add: files)
    have order: "files = first_occurrences
                    (concat (map (\<lambda>q. extractFilenames E (answered_files (event_fetch E context q))
                                         q sourcePath) ?pages))"
      using files by (simp add: gathered_def)
    show ?thesis
      using d origin nested fixed posix prefix order by blast
  qed
  have returns: "(\<exists>tr files.
               determineModifiedFiles E context token sourcePath = (tr, Inr (Some files)))
            \<longleftrightarrow> token \<noteq> []"
    if ev: "eventName context = ''pull_request'' \<or> eventName context = ''push''"
      and ok: "\<forall>q. 1 \<le> q \<and> q \<le> MAX_PAGE \<longrightarrow> (\<exists>r. snd (event_fetch E context q) = Inr r)"
  proof
    assume "\<exists>tr files. determineModifiedFiles E context token sourcePath = (tr, Inr (Some files))"
    then obtain tr where
      "\<exists>files. determineModifiedFiles E context token sourcePath = (tr, Inr (Some files))" ..
    then obtain files where
      "determineModifiedFiles E context token sourcePath = (tr, Inr (Some files))" ..
    then show "token \<noteq> []" by (rule determineModifiedFiles_Some_token)
  next
    assume "token \<noteq> []"
    then show "\<exists>tr files.
      determineModifiedFiles E context token sourcePath = (tr, Inr (Some files))"
      using ev ok by (rule determineModifiedFiles_returns)
  qed
  show ?thesis
    using invariants returns by blast
qed

theorem change_set_invariants_witness:
  "distinct [''src/main/java/AvoidCatchingThrowableSample.java'',
             ''src/main/java/NewFile.java'', ''src/main/java/ChangedFile.java'']
   \<and> posix_normal_form ''src/main/java/AvoidCatchingThrowableSample.java''
   \<and> path_normalize ''src/main/java/AvoidCatchingThrowableSample.java''
       = ''src/main/java/AvoidCatchingThrowableSample.java''
   \<and> nested_under path_normalize ''src/main/java''
       ''src/main/java/AvoidCatchingThrowableSample.java''
   \<and> startsWith ''src/main/java/AvoidCatchingThrowableSample.java'' ''src/main/java/''
   \<and> posix_normal_form ''src/main/java/NewFile.java''
   \<and> path_normalize ''src/main/java/NewFile.java'' = ''src/main/java/NewFile.java''
   \<and> nested_under path_normalize ''src/main/java'' ''src/main/java/NewFile.java''
   \<and> startsWith ''src/main/java/NewFile.java'' ''src/main/java/''
   \<and> posix_normal_form ''src/main/java/ChangedFile.java''
   \<and> path_normalize ''src/main/java/ChangedFile.java'' = ''src/main/java/ChangedFile.java''
   \<and> nested_under path_normalize ''src/main/java'' ''src/main/java/ChangedFile.java''
   \<and> startsWith ''src/main/java/ChangedFile.java'' ''src/main/java/''
   \<and> (\<exists>tr files. determineModifiedFiles example_env (example_context ''pull_request'' 1)
                     ''my-token'' ''src/main/java'' = (tr, Inr (Some files)))"
proof -
  have sp: "path_normalize ''src/main/java'' = ''src/main/java''"
    by code_simp
  have ev: "eventName (example_context ''pull_request'' 1) = ''pull_request''
            \<or> eventName (example_context ''pull_request'' 1) = ''push''"
    by (simp add: example_context_def)
  have ok: "\<forall>q. 1 \<le> q \<and> q \<le> MAX_PAGE \<longrightarrow>
              (\<exists>r. snd (event_fetch example_env (example_context ''pull_request'' 1) q) = Inr r)"
    by (simp add: event_fetch_def pull_request_fetch_def example_env_def example_context_def)
  have tok: "''my-token'' \<noteq> []" by simp
  have returned: "\<exists>tr files. determineModifiedFiles example_env
                     (example_context ''pull_request'' 1) ''my-token'' ''src/main/java''
                   = (tr, Inr (Some files))"
    using change_set_invariants [THEN conjunct2, rule_format, OF conjI, OF ev ok,
        of "''my-token''" "''src/main/java''"] tok
    by (simp only: simp_thms)
  show ?thesis
    using change_set_invariants [THEN conjunct1, rule_format, OF example_run] sp example_host
      returned
    by (simp add: normalize_idempotent)
qed

text \<open>
  Claim C8. Every filename that \<open>determineModifiedFiles\<close> returns is the filename, as the
  host normalizes it, of an entry, on one of the pages 1 to \<open>MAX_PAGE\<close>, whose status is \<^verbatim>\<open>added\<close>,
  \<^verbatim>\<open>changed\<close> or \<^verbatim>\<open>modified\<close>. So a filename whose entries all have the status
  \<^verbatim>\<open>removed\<close> or \<^verbatim>\<open>renamed\<close> is not returned, and leaving the \<^verbatim>\<open>removed\<close> and \<^verbatim>\<open>renamed\<close>
  entries out of a page does not change what the page contributes.
\<close>

theorem only_added_changed_modified:
  assumes "determineModifiedFiles E context token sourcePath = (tr, Inr (Some files))"
  shows "(\<forall>f \<in> set files. \<exists>q e. 1 \<le> q \<and> q \<le> MAX_PAGE
             \<and> e \<in> set (answered_files (event_fetch E context q))
             \<and> (status e = ''added'' \<or> status e = ''changed'' \<or> status e = ''modified'')
             \<and> f = host_normalize E (filename e))
       \<and> (\<forall>f. (\<forall>q e. e \<in> set (answered_files (event_fetch E context q))
                     \<and> host_normalize E (filename e) = f
                   \<longrightarrow> status e = ''removed'' \<or> status e = ''renamed'')
              \<longrightarrow> f \<notin> set files)
       \<and> (\<forall>allFiles page.
             extractFilenames E
               (filter (\<lambda>e. status e \<noteq> ''removed'' \<and> status e \<noteq> ''renamed'') allFiles)
               page sourcePath
             = extractFilenames E allFiles page sourcePath)"
proof -
  let ?pages = "takeWhile (\<lambda>q. answered_files (event_fetch E context q) \<noteq> []) [1..<Suc MAX_PAGE]"
  have files: "files = first_occurrences (gathered E (event_fetch E context) sourcePath ?pages)"
    using assms by (rule determineModifiedFiles_files)
  have origin: "\<exists>q e. 1 \<le> q \<and> q \<le> MAX_PAGE
             \<and> e \<in> set (answered_files (event_fetch E context q))
             \<and> (status e = ''added'' \<or> status e = ''changed'' \<or> status e = ''modified'')
             \<and> f = host_normalize E (filename e)" if "f \<in> set files" for f
  proof -
    from that have "f \<in> set (gathered E (event_fetch E context) sourcePath ?pages)"
      by (simp add: files)
    then obtain q e where q: "q \<in> set ?pages"
      and e: "e \<in> set (answered_files (event_fetch E context q))"
        "status e = ''added'' \<or> status e = ''changed'' \<or> status e = ''modified''"
        "f = host_normalize E (filename e)"
      and "nested_under (host_normalize E) sourcePath f
           \<or> host_normalize E (sourcePath @ ''/'') = ''.''"
      by (rule gathered_member)
    from q have "q \<in> set [1..<Suc MAX_PAGE]" by (rule set_takeWhileD [THEN conjunct1])
    then have "1 \<le> q \<and> q \<le> MAX_PAGE" by auto
    then have "1 \<le> q \<and> q \<le> MAX_PAGE
             \<and> e \<in> set (answered_files (event_fetch E context q))
             \<and> (status e = ''added'' \<or> status e = ''changed'' \<or> status e = ''modified'')
             \<and> f = host_normalize E (filename e)"
      using e by simp
    then show ?thesis by (intro exI)
  qed
  have absent: "f \<notin> set files"
    if only: "\<forall>q e. e \<in> set (answered_files (event_fetch E context q))
                     \<and> host_normalize E (filename e) = f
                   \<longrightarrow> status e = ''removed'' \<or> status e = ''renamed''" for f
  proof
    assume "f \<in> set files"
    from origin [OF this] obtain q where "\<exists>e. 1 \<le> q \<and> q \<le> MAX_PAGE
             \<and> e \<in> set (answered_files (event_fetch E context q))
             \<and> (status e = ''added'' \<or> status e = ''changed'' \<or> status e = ''modified'')
             \<and> f = host_normalize E (filename e)" ..
    then obtain e where e: "1 \<le> q \<and> q \<le> MAX_PAGE
             \<and> e \<in> set (answered_files (event_fetch E context q))
             \<and> (status e = ''added'' \<or> status e = ''changed'' \<or> status e = ''modified'')
             \<and> f = host_normalize E (filename e)" ..
    then have "e \<in> set (answered_files (event_fetch E context q))
               \<and> host_normalize E (filename e) = f" by simp
    then have "status e = ''removed'' \<or> status e = ''renamed''"
      by (rule only [rule_format])
    then show False using e by auto
  qed
  show ?thesis
    using origin absent by (simp add: extractFilenames_ignores)
qed

theorem only_added_changed_modified_witness:
  "\<exists>q e. 1 \<le> q \<and> q \<le> MAX_PAGE
      \<and> e \<in> set (answered_files
                    (event_fetch example_env (example_context ''pull_request'' 1) q))
      \<and> (status e = ''added'' \<or> status e = ''changed'' \<or> status e = ''modified'')
      \<and> ''src/main/java/NewFile.java'' = path_normalize (filename e)"
  using only_added_changed_modified [OF example_run] by (simp add: example_host)

end
